theory Spec2Isabelle
  imports Main "HOL-Library.Word"
begin

section \<open>The screen-state engine of ui.cpp\<close>

text \<open>
  A shallow embedding of \<^verbatim>\<open>src/ui.cpp\<close>. Sizes and counts (\<^verbatim>\<open>size_t\<close>) are natural
  numbers, \<^verbatim>\<open>long\<close> values and pointers into the cell array are integers (a pointer is
  the index of the cell it points to). Everything the handlers do besides returning
  is part of the state: the diagnostics they log are appended to \<open>diags\<close>, the
  redraw requests to the window are counted in \<open>redraws\<close>. A call that ends the
  process (\<^verbatim>\<open>std::abort\<close>) or leaves the defined behaviour of C++ (a write or a copy
  outside the cell array, a \<^verbatim>\<open>memcpy\<close> between overlapping ranges) returns a
  \<open>fault\<close>.
\<close>

subsection \<open>Dynamic values\<close>

text \<open>
  The values of the decoder (\<^verbatim>\<open>msg::object\<close>): integer, boolean, string, array and
  ordered key/value map. \<^verbatim>\<open>msg::string\<close> is a sequence of bytes, here a \<open>string\<close>.
\<close>

datatype object =
    MInteger int
  | MBoolean bool
  | MString string
  | MArray "object list"
  | MMap "(object \<times> object) list"

text \<open>The parameter types a handler can declare, as \<^verbatim>\<open>is<T>\<close> tells them apart.\<close>

datatype param = PIntegral | PBoolean | PString | PArray | PMap

text \<open>
  \<^verbatim>\<open>is<T>(object)\<close>: an integral \<^verbatim>\<open>T\<close> other than the boolean accepts a dynamic
  integer, every other \<^verbatim>\<open>T\<close> its own dynamic type only.
\<close>

fun is_type :: "param \<Rightarrow> object \<Rightarrow> bool" where
  "is_type PIntegral (MInteger _) = True"
| "is_type PBoolean (MBoolean _) = True"
| "is_type PString (MString _) = True"
| "is_type PArray (MArray _) = True"
| "is_type PMap (MMap _) = True"
| "is_type _ _ = False"

text \<open>
  The accessors \<^verbatim>\<open>get<T>\<close>. The source calls them on values of the checked type
  only; on any other value the model returns a fixed value.
\<close>

fun get_string :: "object \<Rightarrow> string" where
  "get_string (MString s) = s"
| "get_string _ = []"

fun get_integer :: "object \<Rightarrow> int" where
  "get_integer (MInteger i) = i"
| "get_integer _ = 0"

text \<open>
  Modelled from the spec: the conversion of a dynamic integer to \<^verbatim>\<open>size_t\<close> and to
  \<^verbatim>\<open>uint32_t\<close> (\<^verbatim>\<open>msg::integer\<close> is declared outside \<^verbatim>\<open>src/\<close>), taken as the
  integral conversion of C++: the value modulo \<open>2^64\<close> and \<open>2^32\<close>.
\<close>

definition as_size_t :: "int \<Rightarrow> nat" where
  "as_size_t i = nat (i mod 2 ^ 64)"

definition as_uint32 :: "int \<Rightarrow> 32 word" where
  "as_uint32 i = word_of_int i"

subsection \<open>Diagnostics\<close>

datatype message =
    GridIndexOutOfBounds string nat nat nat nat
  | ArgumentTypeError string object
  | CellUpdateTypeError object
  | UnknownHighlightId
  | RowOverflow
  | ScrollInvalidArgs nat nat nat nat
  | RgbTypeError object
  | MapKeyTypeError object
  | IgnoringHighlightAttribute string

datatype level = Error | Info

type_synonym diag = "level \<times> message"

datatype fault = Aborted | UndefinedBehaviour

subsection \<open>Cells, grids, highlight attributes\<close>

text \<open>
  Modelled from the spec: the types of \<^verbatim>\<open>ui.hpp\<close>, which is not under \<^verbatim>\<open>src/\<close>. A
  colour is an RGB value with a mark that tells the default sentinel from an explicit
  colour: \<^verbatim>\<open>rgb_color(rgb)\<close> is explicit, \<^verbatim>\<open>rgb_color(rgb, default_tag)\<close> is marked.
\<close>

record rgb_color =
  rgb :: "32 word"
  is_default :: bool

definition rgb_color :: "32 word \<Rightarrow> rgb_color" where
  "rgb_color v = \<lparr>rgb = v, is_default = False\<rparr>"

definition rgb_color_default :: "32 word \<Rightarrow> rgb_color" where
  "rgb_color_default v = \<lparr>rgb = v, is_default = True\<rparr>"

record font_attributes =
  bold :: bool
  italic :: bool

record line_attributes =
  underline :: bool
  strikethrough :: bool
  undercurl :: bool
  reverse :: bool

record highlight_attributes =
  foreground :: rgb_color
  background :: rgb_color
  special :: rgb_color
  fontattrs :: font_attributes
  attrs :: line_attributes

text \<open>
  A cell: the text buffer \<^verbatim>\<open>text\<close> (here \<open>ctext\<close>, always \<^verbatim>\<open>cell::max_text_size\<close> bytes
  long), the number \<^verbatim>\<open>size\<close> of bytes in use (here \<open>tsize\<close>), the hash and a copy
  of the highlight attributes. The hash is an unsigned machine integer whose width
  \<^verbatim>\<open>ui.hpp\<close> fixes; the model leaves the type \<open>'h\<close> of the hash open, and
  \<^verbatim>\<open>make_cell\<close> computes it in a word type of any width.
\<close>

record 'h cell =
  ctext :: string
  tsize :: nat
  hash :: 'h
  hl_attrs :: highlight_attributes

record 'h grid =
  width :: nat
  height :: nat
  cells :: "'h cell list"
  draw_tick :: nat

text \<open>
  The state of the engine. The grid buffers live in a store \<open>grids\<close>, from addresses
  to grids; \<open>writing\<close> and \<open>complete\<close> are the two pointers of \<^verbatim>\<open>ui_state\<close>, the
  second one the atomically exchanged slot the consumer reads. \<open>hltable\<close> is the vector
  of the highlight table, whose entry 0 is the default entry.
\<close>

record 'h ui_state =
  grids :: "nat \<Rightarrow> 'h grid"
  writing :: nat
  complete :: nat
  hltable :: "highlight_attributes list"
  diags :: "diag list"
  redraws :: nat

definition os_log_error :: "message \<Rightarrow> 'h ui_state \<Rightarrow> 'h ui_state" where
  "os_log_error m st = st\<lparr>diags := diags st @ [(Error, m)]\<rparr>"

definition log_grid_out_of_bounds ::
  "'h grid \<Rightarrow> string \<Rightarrow> nat \<Rightarrow> nat \<Rightarrow> 'h ui_state \<Rightarrow> 'h ui_state" where
  "log_grid_out_of_bounds g event row col st =
     os_log_error (GridIndexOutOfBounds event (width g) (height g) row col) st"

subsection \<open>make\_cell\<close>

text \<open>
  The byte \<^verbatim>\<open>text[i]\<close> as it enters the hash: a \<^verbatim>\<open>char\<close>, signed on the platforms the
  program is built for, converted to the type of the hash.
\<close>

definition byte_value :: "char \<Rightarrow> 'w::len word" where
  "byte_value c = scast (of_char c :: 8 word)"

text \<open>
  The loop of \<^verbatim>\<open>make_cell\<close>: \<^verbatim>\<open>for (i = 0; i < limit; ++i)\<close>, storing byte \<open>i\<close> and
  folding it into the hash.
\<close>

function make_cell_loop :: "nat \<Rightarrow> nat \<Rightarrow> string \<Rightarrow> ('w::len word) cell \<Rightarrow> 'w word cell" where
  "make_cell_loop i limit txt ret =
     (if i < limit
      then make_cell_loop (i + 1) limit txt
             (ret\<lparr>ctext := (ctext ret)[i := txt ! i],
                  hash := hash ret * 33 + byte_value (txt ! i)\<rparr>)
      else ret)"
  by pat_completeness auto
termination
  by (relation "measure (\<lambda>(i, limit, txt, ret). limit - i)") auto

declare make_cell_loop.simps [simp del]

text \<open>
  \<^verbatim>\<open>make_cell(text, hl_attrs)\<close>. The constant \<^verbatim>\<open>cell::max_text_size\<close> of \<^verbatim>\<open>ui.hpp\<close> is the
  parameter \<open>max_text_size\<close>. \<^verbatim>\<open>cell ret = {}\<close> followed by the copy of the attributes is
  the record \<open>empty_cell\<close>: a zeroed buffer, no size, no hash.
\<close>

definition empty_cell :: "nat \<Rightarrow> highlight_attributes \<Rightarrow> ('w::len word) cell" where
  "empty_cell max_text_size hl =
     \<lparr>ctext = replicate max_text_size (CHR 0x00), tsize = 0, hash = 0, hl_attrs = hl\<rparr>"

definition make_cell :: "nat \<Rightarrow> string \<Rightarrow> highlight_attributes \<Rightarrow> ('w::len word) cell" where
  "make_cell max_text_size txt hl =
     (let ret = empty_cell max_text_size hl in
      if length txt = 1 \<and> hd txt = CHR '' '' then ret
      else
        let limit = min (length txt) max_text_size in
        make_cell_loop 0 limit txt (ret\<lparr>hash := 5381, tsize := limit\<rparr>))"

subsection \<open>flush\<close>

text \<open>
  \<^verbatim>\<open>flush()\<close>: the tick of the writing buffer goes up, the slot \<open>complete\<close> is exchanged
  for the writing pointer, the buffer that comes back becomes the writing buffer and
  is overwritten with a copy of the completed one; the window is asked to redraw.
\<close>

definition flush :: "'h ui_state \<Rightarrow> 'h ui_state" where
  "flush st =
     (let completed = writing st;
          g1 = (grids st)(completed := (grids st completed)
                  \<lparr>draw_tick := draw_tick (grids st completed) + 1\<rparr>);
          writing' = complete st;
          g2 = g1(writing' := g1 completed)
      in st\<lparr>grids := g2, writing := writing', complete := completed,
              redraws := redraws st + 1\<rparr>)"

text \<open>The buffer the consumer reads, and the buffer the handlers write.\<close>

definition published :: "'h ui_state \<Rightarrow> 'h grid" where
  "published st = grids st (complete st)"

definition writing_grid :: "'h ui_state \<Rightarrow> 'h grid" where
  "writing_grid st = grids st (writing st)"

subsection \<open>The generic event binder\<close>

text \<open>
  The fold \<^verbatim>\<open>(is<Ts>(args[index++]) && ...)\<close>: the parameter types against the leading
  values of the tuple, left to right. It is evaluated only when the tuple has at least
  as many values as there are parameters.
\<close>

fun types_match :: "param list \<Rightarrow> object list \<Rightarrow> bool" where
  "types_match [] args = True"
| "types_match (t # ts) [] = False"
| "types_match (t # ts) (a # args) = (is_type t a \<and> types_match ts args)"

text \<open>
  \<^verbatim>\<open>call\<close> hands the values at the indexes below \<^verbatim>\<open>size\<close> (here \<open>n\<close>) to the
  handler. A handler is a function from these values and the state; the parameter
  types \<open>ts\<close> stand for the template arguments \<^verbatim>\<open>Ts...\<close> taken from the handler's
  signature.
\<close>

definition call ::
  "(object list \<Rightarrow> 's \<Rightarrow> 'r) \<Rightarrow> nat \<Rightarrow> object list \<Rightarrow> 's \<Rightarrow> 'r" where
  "call member_function n args st = member_function (take n args) st"

definition apply_one ::
  "param list \<Rightarrow> (object list \<Rightarrow> 'h ui_state \<Rightarrow> fault + 'h ui_state) \<Rightarrow>
   string \<Rightarrow> object \<Rightarrow> 'h ui_state \<Rightarrow> fault + 'h ui_state" where
  "apply_one ts member_function name obj st =
     (case obj of
        MArray args \<Rightarrow>
          if length ts \<le> length args \<and> types_match ts args
          then call member_function (length ts) args st
          else Inr (os_log_error (ArgumentTypeError name obj) st)
      | _ \<Rightarrow> Inr (os_log_error (ArgumentTypeError name obj) st))"

text \<open>\<^verbatim>\<open>apply\<close>: every tuple of the event in turn. Only the end of the process stops it.\<close>

fun apply_each ::
  "param list \<Rightarrow> (object list \<Rightarrow> 'h ui_state \<Rightarrow> fault + 'h ui_state) \<Rightarrow>
   string \<Rightarrow> object list \<Rightarrow> 'h ui_state \<Rightarrow> fault + 'h ui_state" where
  "apply_each ts member_function name [] st = Inr st"
| "apply_each ts member_function name (tuple # array) st =
     (case apply_one ts member_function name tuple st of
        Inl f \<Rightarrow> Inl f
      | Inr st' \<Rightarrow> apply_each ts member_function name array st')"

subsection \<open>The highlight table\<close>

text \<open>
  Modelled from the spec: \<^verbatim>\<open>get_default\<close> and \<^verbatim>\<open>get_entry\<close> of \<^verbatim>\<open>ui.hpp\<close>. The default
  entry is entry 0 of the vector, which is never empty; an id with no entry in the
  table resolves to the null pointer, here \<open>None\<close>.
\<close>

definition get_default :: "highlight_attributes list \<Rightarrow> highlight_attributes" where
  "get_default table = table ! 0"

definition get_entry ::
  "highlight_attributes list \<Rightarrow> nat \<Rightarrow> highlight_attributes option" where
  "get_entry table hlid = (if hlid < length table then Some (table ! hlid) else None)"

text \<open>
  \<^verbatim>\<open>new_entry(hlid)\<close> returns the table and the index of the entry its result points
  to: \<^verbatim>\<open>&table.back()\<close> is the last index. \<^verbatim>\<open>table.resize(hlid, default_attrs)\<close> grows
  the vector to \<open>hlid\<close> entries.
\<close>

definition new_entry ::
  "nat \<Rightarrow> highlight_attributes list \<Rightarrow> highlight_attributes list \<times> nat" where
  "new_entry hlid table =
     (let table_size = length table in
      if hlid = table_size then
        (let table' = table @ [get_default table] in (table', length table' - 1))
      else if hlid < table_size then
        (table[hlid := get_default table], hlid)
      else
        (let default_attrs = get_default table;
             table' = table @ replicate (hlid - table_size) default_attrs
         in (table', length table' - 1)))"

text \<open>\<^verbatim>\<open>set_rgb_color\<close>: the colour and, when the value is no integer, the error logged.\<close>

fun set_rgb_color :: "rgb_color \<Rightarrow> object \<Rightarrow> rgb_color \<times> diag list" where
  "set_rgb_color color (MInteger i) = (rgb_color (as_uint32 i), [])"
| "set_rgb_color color obj = (color, [(Error, RgbTypeError obj)])"

text \<open>
  One round of the loop over the definition map, on the entry \<open>hlattrs\<close>, the flag
  \<open>reversed\<close> and the diagnostics logged so far.
\<close>

definition hl_attr_pair ::
  "object \<times> object \<Rightarrow> highlight_attributes \<times> bool \<times> diag list \<Rightarrow>
   highlight_attributes \<times> bool \<times> diag list" where
  "hl_attr_pair pair acc =
     (case acc of (hlattrs, reversed, ds) \<Rightarrow>
       (case fst pair of
          MString name \<Rightarrow>
            if name = ''foreground'' then
              (case set_rgb_color (foreground hlattrs) (snd pair) of
                 (c, e) \<Rightarrow> (hlattrs\<lparr>foreground := c\<rparr>, reversed, ds @ e))
            else if name = ''background'' then
              (case set_rgb_color (background hlattrs) (snd pair) of
                 (c, e) \<Rightarrow> (hlattrs\<lparr>background := c\<rparr>, reversed, ds @ e))
            else if name = ''underline'' then
              (hlattrs\<lparr>attrs := (attrs hlattrs)\<lparr>underline := True\<rparr>\<rparr>, reversed, ds)
            else if name = ''bold'' then
              (hlattrs\<lparr>fontattrs := (fontattrs hlattrs)\<lparr>bold := True\<rparr>\<rparr>, reversed, ds)
            else if name = ''italic'' then
              (hlattrs\<lparr>fontattrs := (fontattrs hlattrs)\<lparr>italic := True\<rparr>\<rparr>, reversed, ds)
            else if name = ''strikethrough'' then
              (hlattrs\<lparr>attrs := (attrs hlattrs)\<lparr>strikethrough := True\<rparr>\<rparr>, reversed, ds)
            else if name = ''undercurl'' then
              (hlattrs\<lparr>attrs := (attrs hlattrs)\<lparr>undercurl := True\<rparr>\<rparr>, reversed, ds)
            else if name = ''special'' then
              (case set_rgb_color (special hlattrs) (snd pair) of
                 (c, e) \<Rightarrow> (hlattrs\<lparr>special := c\<rparr>, reversed, ds @ e))
            else if name = ''reverse'' then
              (hlattrs\<lparr>attrs := (attrs hlattrs)\<lparr>reverse := True\<rparr>\<rparr>, True, ds)
            else
              (hlattrs, reversed, ds @ [(Info, IgnoringHighlightAttribute name)])
        | key \<Rightarrow> (hlattrs, reversed, ds @ [(Error, MapKeyTypeError key)])))"

fun hl_attr_loop ::
  "(object \<times> object) list \<Rightarrow> highlight_attributes \<times> bool \<times> diag list \<Rightarrow>
   highlight_attributes \<times> bool \<times> diag list" where
  "hl_attr_loop [] acc = acc"
| "hl_attr_loop (pair # defn) acc = hl_attr_loop defn (hl_attr_pair pair acc)"

definition swap_colors :: "highlight_attributes \<Rightarrow> highlight_attributes" where
  "swap_colors a = a\<lparr>background := foreground a, foreground := background a\<rparr>"

text \<open>
  \<^verbatim>\<open>hl_attr_define(hlid, definition)\<close>: the pointer \<open>hlattrs\<close> is the index \<open>p\<close> that
  \<open>new_entry\<close> returns; every write of the loop and the final swap go to that entry.
\<close>

definition hl_attr_define ::
  "nat \<Rightarrow> (object \<times> object) list \<Rightarrow> 'h ui_state \<Rightarrow> 'h ui_state" where
  "hl_attr_define hlid defn st =
     (case new_entry hlid (hltable st) of
        (table, p) \<Rightarrow>
          (case hl_attr_loop defn (table ! p, False, []) of
             (hlattrs, reversed, ds) \<Rightarrow>
               st\<lparr>hltable := table[p := (if reversed then swap_colors hlattrs else hlattrs)],
                  diags := diags st @ ds\<rparr>))"

text \<open>
  \<^verbatim>\<open>hl_attr_define\<close> as the binder calls it: a handler of the two parameters
  \<^verbatim>\<open>size_t hlid\<close> and \<^verbatim>\<open>msg::map definition\<close>, read from the values by \<^verbatim>\<open>get<T>\<close>.
\<close>

fun get_map :: "object \<Rightarrow> (object \<times> object) list" where
  "get_map (MMap m) = m"
| "get_map _ = []"

definition call_hl_attr_define :: "object list \<Rightarrow> 'h ui_state \<Rightarrow> fault + 'h ui_state" where
  "call_hl_attr_define args st =
     Inr (hl_attr_define (as_size_t (get_integer (args ! 0))) (get_map (args ! 1)) st)"

subsection \<open>default\_colors\_set\<close>

text \<open>The body of the loop over the cells: each colour that is the sentinel is replaced.\<close>

definition set_default_colors ::
  "rgb_color \<Rightarrow> rgb_color \<Rightarrow> rgb_color \<Rightarrow> 'h cell \<Rightarrow> 'h cell" where
  "set_default_colors rgb_fg rgb_bg rgb_sp c =
     (let c1 = (if is_default (foreground (hl_attrs c))
                then c\<lparr>hl_attrs := (hl_attrs c)\<lparr>foreground := rgb_fg\<rparr>\<rparr> else c);
          c2 = (if is_default (background (hl_attrs c1))
                then c1\<lparr>hl_attrs := (hl_attrs c1)\<lparr>background := rgb_bg\<rparr>\<rparr> else c1);
          c3 = (if is_default (special (hl_attrs c2))
                then c2\<lparr>hl_attrs := (hl_attrs c2)\<lparr>special := rgb_sp\<rparr>\<rparr> else c2)
      in c3)"

definition default_colors_set ::
  "32 word \<Rightarrow> 32 word \<Rightarrow> 32 word \<Rightarrow> 'h ui_state \<Rightarrow> 'h ui_state" where
  "default_colors_set fg bg sp st =
     (let rgb_fg = rgb_color_default fg;
          rgb_bg = rgb_color_default bg;
          rgb_sp = rgb_color_default sp;
          def = get_default (hltable st);
          def' = def\<lparr>foreground := rgb_fg, background := rgb_bg, special := rgb_sp,
                     fontattrs := \<lparr>bold = False, italic = False\<rparr>,
                     attrs := \<lparr>underline = False, strikethrough = False,
                               undercurl = False, reverse = False\<rparr>\<rparr>;
          g = grids st (writing st)
      in st\<lparr>hltable := (hltable st)[0 := def'],
             grids := (grids st)(writing st :=
                        g\<lparr>cells := map (set_default_colors rgb_fg rgb_bg rgb_sp) (cells g)\<rparr>)\<rparr>)"

subsection \<open>grid\_line\<close>

text \<open>\<^verbatim>\<open>get_grid\<close>: the only grid is grid 1, any other index ends the process.\<close>

definition get_grid :: "nat \<Rightarrow> 'h ui_state \<Rightarrow> fault + nat" where
  "get_grid index st = (if index \<noteq> 1 then Inl Aborted else Inr (writing st))"

text \<open>
  Modelled from the spec: \<^verbatim>\<open>grid::get(row, col)\<close> of \<^verbatim>\<open>ui.hpp\<close>, the pointer to a cell of
  the row-major cell sequence, here the index of the cell.
\<close>

definition grid_get :: "'h grid \<Rightarrow> nat \<Rightarrow> nat \<Rightarrow> nat" where
  "grid_get g row col = row * width g + col"

text \<open>
  \<^verbatim>\<open>type_check<Ts...>(array)\<close>: the exact number of values, each of its type.
\<close>

definition type_check :: "param list \<Rightarrow> object list \<Rightarrow> bool" where
  "type_check ts array = (length array = length ts \<and> types_match ts array)"

text \<open>
  \<^verbatim>\<open>cell_update\<close>: the fields \<^verbatim>\<open>text\<close> (here \<open>utext\<close>), \<^verbatim>\<open>hlattr\<close> and \<^verbatim>\<open>repeat\<close>. The
  pointer \<^verbatim>\<open>hlattr\<close> points into the highlight table, which \<^verbatim>\<open>grid_line\<close> does not
  change: the model keeps the entry it points to, \<open>None\<close> for the null pointer.
\<close>

record cell_update =
  utext :: string
  hlattr :: "highlight_attributes option"
  repeat :: nat

definition cell_update_init :: cell_update where
  "cell_update_init = \<lparr>utext = [], hlattr = None, repeat = 0\<rparr>"

text \<open>\<^verbatim>\<open>cell_update::set\<close>: \<open>None\<close> where the source returns false.\<close>

definition cell_update_set ::
  "highlight_attributes list \<Rightarrow> object \<Rightarrow> cell_update \<Rightarrow> cell_update option" where
  "cell_update_set hl_table obj u =
     (case obj of
        MArray array \<Rightarrow>
          if type_check [PString] array then
            Some (u\<lparr>utext := get_string (array ! 0), repeat := 1\<rparr>)
          else if type_check [PString, PIntegral] array then
            Some (u\<lparr>utext := get_string (array ! 0),
                    hlattr := get_entry hl_table (as_size_t (get_integer (array ! 1))),
                    repeat := 1\<rparr>)
          else if type_check [PString, PIntegral, PIntegral] array then
            Some (u\<lparr>utext := get_string (array ! 0),
                    hlattr := get_entry hl_table (as_size_t (get_integer (array ! 1))),
                    repeat := as_size_t (get_integer (array ! 2))\<rparr>)
          else None
      | _ \<Rightarrow> None)"

text \<open>A write through a pointer into the cell array: outside the array it is undefined.\<close>

definition store :: "'a list \<Rightarrow> nat \<Rightarrow> 'a \<Rightarrow> 'a list option" where
  "store mem p v = (if p < length mem then Some (mem[p := v]) else None)"

text \<open>The largest value of an \<^verbatim>\<open>int\<close>, \<^verbatim>\<open>INT_MAX\<close>.\<close>

definition int_max :: nat where
  "int_max = 2 ^ 31 - 1"

text \<open>
  \<^verbatim>\<open>for (int i=1; i<update.repeat; ++i) cell[i] = *cell;\<close> with \<open>p\<close> the pointer
  \<^verbatim>\<open>cell\<close>. The counter \<open>i\<close> is an \<^verbatim>\<open>int\<close> that starts at 1 and only goes up, so it is
  a \<open>nat\<close> here, and the comparison with the \<^verbatim>\<open>size_t\<close> count is the comparison of
  the two numbers. The increment \<^verbatim>\<open>++i\<close> at \<open>i = int_max\<close> overflows the \<^verbatim>\<open>int\<close>, which
  is undefined: the loop then has no result.
\<close>

function repeat_loop :: "nat \<Rightarrow> nat \<Rightarrow> nat \<Rightarrow> 'a list \<Rightarrow> 'a list option" where
  "repeat_loop i rep p mem =
     (if i < rep then
        (case store mem (p + i) (mem ! p) of
           None \<Rightarrow> None
         | Some mem' \<Rightarrow>
             if i = int_max then None else repeat_loop (i + 1) rep p mem')
      else Some mem)"
  by pat_completeness auto
termination
  by (relation "measure (\<lambda>(i, rep, p, mem). rep - i)") auto

declare repeat_loop.simps [simp del]

text \<open>
  The local variables of \<^verbatim>\<open>grid_line\<close> with the cell array they point into: the
  pointer \<^verbatim>\<open>cell\<close> (\<open>l_cell\<close>), \<^verbatim>\<open>remaining\<close> and \<^verbatim>\<open>update\<close>.
\<close>

record 'h line_state =
  l_cells :: "'h cell list"
  l_cell :: nat
  l_remaining :: nat
  l_update :: cell_update

datatype 'a flow = Continue 'a | Return message | Undefined

text \<open>The body of the loop of \<^verbatim>\<open>grid_line\<close> for one cell update.\<close>

definition grid_line_step ::
  "nat \<Rightarrow> highlight_attributes list \<Rightarrow> object \<Rightarrow> ('w::len word) line_state \<Rightarrow>
   'w word line_state flow" where
  "grid_line_step max_text_size hl_table obj ls =
     (case cell_update_set hl_table obj (l_update ls) of
        None \<Rightarrow> Return (CellUpdateTypeError obj)
      | Some u \<Rightarrow>
          (case hlattr u of
             None \<Rightarrow> Return UnknownHighlightId
           | Some a \<Rightarrow>
               if repeat u > l_remaining ls then Return RowOverflow
               else
                 (case store (l_cells ls) (l_cell ls) (make_cell max_text_size (utext u) a) of
                    None \<Rightarrow> Undefined
                  | Some m1 \<Rightarrow>
                      (case repeat_loop 1 (repeat u) (l_cell ls) m1 of
                         None \<Rightarrow> Undefined
                       | Some m2 \<Rightarrow>
                           Continue \<lparr>l_cells = m2, l_cell = l_cell ls + repeat u,
                                     l_remaining = l_remaining ls - repeat u,
                                     l_update = u\<rparr>))))"

text \<open>
  The loop over the cell updates. It ends with the local state reached and, when an
  update made the handler return, the error that update logged.
\<close>

fun grid_line_loop ::
  "nat \<Rightarrow> highlight_attributes list \<Rightarrow> object list \<Rightarrow> ('w::len word) line_state \<Rightarrow>
   fault + ('w word line_state \<times> message option)" where
  "grid_line_loop max_text_size hl_table [] ls = Inr (ls, None)"
| "grid_line_loop max_text_size hl_table (obj # objs) ls =
     (case grid_line_step max_text_size hl_table obj ls of
        Continue ls' \<Rightarrow> grid_line_loop max_text_size hl_table objs ls'
      | Return m \<Rightarrow> Inr (ls, Some m)
      | Undefined \<Rightarrow> Inl UndefinedBehaviour)"

definition line_start :: "'h grid \<Rightarrow> nat \<Rightarrow> nat \<Rightarrow> 'h line_state" where
  "line_start g row col =
     \<lparr>l_cells = cells g, l_cell = grid_get g row col, l_remaining = width g - col,
      l_update = cell_update_init\<rparr>"

definition grid_line ::
  "nat \<Rightarrow> nat \<Rightarrow> nat \<Rightarrow> nat \<Rightarrow> object list \<Rightarrow> ('w::len word) ui_state \<Rightarrow>
   fault + 'w word ui_state" where
  "grid_line max_text_size grid_id row col cell_updates st =
     (case get_grid grid_id st of
        Inl f \<Rightarrow> Inl f
      | Inr p \<Rightarrow>
          (let g = grids st p in
           if row \<ge> height g \<or> col \<ge> width g
           then Inr (log_grid_out_of_bounds g ''grid_line'' row col st)
           else
             (case grid_line_loop max_text_size (hltable st) cell_updates (line_start g row col) of
                Inl f \<Rightarrow> Inl f
              | Inr (ls, r) \<Rightarrow>
                  (let st' = st\<lparr>grids := (grids st)(p := g\<lparr>cells := l_cells ls\<rparr>)\<rparr>
                   in Inr (case r of None \<Rightarrow> st' | Some m \<Rightarrow> os_log_error m st')))))"

subsection \<open>grid\_scroll\<close>

text \<open>
  \<^verbatim>\<open>memcpy(dest, src, n)\<close> on the cell array, \<open>n\<close> counted in cells. A range that leaves
  the array and two ranges that overlap without being the same range are undefined;
  a copy of a range onto itself leaves it as it is.
\<close>

definition memcpy :: "'a list \<Rightarrow> int \<Rightarrow> int \<Rightarrow> nat \<Rightarrow> 'a list option" where
  "memcpy mem dest src n =
     (if dest < 0 \<or> src < 0 \<or> dest + int n > int (length mem) \<or> src + int n > int (length mem)
      then None
      else if src \<noteq> dest \<and> \<bar>src - dest\<bar> < int n then None
      else Some (take (nat dest) mem @ take n (drop (nat src) mem) @ drop (nat dest + n) mem))"

text \<open>
  \<^verbatim>\<open>for (long i=0; i<count; ++i) { memcpy(dest, src, copy_size); dest += row_width;
  src += row_width; }\<close> with \<open>copy_size\<close> counted in cells.
\<close>

function scroll_loop ::
  "int \<Rightarrow> int \<Rightarrow> int \<Rightarrow> int \<Rightarrow> int \<Rightarrow> nat \<Rightarrow> 'a list \<Rightarrow> 'a list option" where
  "scroll_loop i count dest src row_width copy_size mem =
     (if i < count then
        (case memcpy mem dest src copy_size of
           None \<Rightarrow> None
         | Some mem' \<Rightarrow>
             scroll_loop (i + 1) count (dest + row_width) (src + row_width)
               row_width copy_size mem')
      else Some mem)"
  by pat_completeness auto
termination
  by (relation "measure (\<lambda>(i, count, dest, src, row_width, copy_size, mem). nat (count - i))")
    auto

declare scroll_loop.simps [simp del]

text \<open>
  \<^verbatim>\<open>grid_scroll\<close>. The locals \<^verbatim>\<open>height\<close> and \<^verbatim>\<open>width\<close> of the source are \<open>h\<close> and \<open>w\<close>.
  Where \<open>bottom = 0\<close> the source's \<open>bottom - 1\<close> wraps around; then \<open>count\<close> is
  negative and the pointer is never used. The parameter \<^verbatim>\<open>top\<close> is \<open>top'\<close>.
\<close>

definition grid_scroll ::
  "nat \<Rightarrow> nat \<Rightarrow> nat \<Rightarrow> nat \<Rightarrow> nat \<Rightarrow> int \<Rightarrow> 'h ui_state \<Rightarrow> fault + 'h ui_state" where
  "grid_scroll grid_id top' bottom left right rows st =
     (if bottom < top' \<or> right < left
      then Inr (os_log_error (ScrollInvalidArgs top' bottom left right) st)
      else
        (case get_grid grid_id st of
           Inl f \<Rightarrow> Inl f
         | Inr p \<Rightarrow>
             (let g = grids st p; h = bottom - top'; w = right - left in
              if bottom > height g \<or> right > width g
              then Inr (log_grid_out_of_bounds g ''grid_scroll'' bottom right st)
              else
                (let (dest, row_width, count) =
                       (if rows \<ge> 0
                        then (int (grid_get g top' left), int (width g), int h - rows)
                        else (int (grid_get g (bottom - 1) left), - int (width g), int h + rows));
                     src = dest + int (width g) * rows
                 in case scroll_loop 0 count dest src row_width w (cells g) of
                      None \<Rightarrow> Inl UndefinedBehaviour
                    | Some mem \<Rightarrow> Inr (st\<lparr>grids := (grids st)(p := g\<lparr>cells := mem\<rparr>)\<rparr>)))))"

subsection \<open>Example values\<close>

text \<open>
  Values on which the theorems below are evaluated: a default highlight entry, an
  entry with an explicit foreground, a state whose table holds the default entry only
  and whose two buffers are empty grids, and a state with a grid of three rows of two
  cells, the second cell with the explicit foreground.
\<close>

definition example_default :: highlight_attributes where
  "example_default =
     \<lparr>foreground = rgb_color_default 0xFFFFFF, background = rgb_color_default 0x000000,
      special = rgb_color_default 0x0000FF,
      fontattrs = \<lparr>bold = False, italic = False\<rparr>,
      attrs = \<lparr>underline = False, strikethrough = False, undercurl = False,
               reverse = False\<rparr>\<rparr>"

definition example_red :: highlight_attributes where
  "example_red = example_default\<lparr>foreground := rgb_color 0xFF0000\<rparr>"

definition example_grid :: "nat \<Rightarrow> nat \<Rightarrow> 'h cell list \<Rightarrow> 'h grid" where
  "example_grid w h cs = \<lparr>width = w, height = h, cells = cs, draw_tick = 0\<rparr>"

definition fresh_state :: "(32 word) ui_state" where
  "fresh_state =
     \<lparr>grids = (\<lambda>a. example_grid 0 0 []), writing = 1, complete = 0,
      hltable = [example_default], diags = [], redraws = 0\<rparr>"

definition example_cell :: "string \<Rightarrow> (32 word) cell" where
  "example_cell s = make_cell 4 s example_default"

definition example_state :: "(32 word) ui_state" where
  "example_state =
     fresh_state\<lparr>grids := (\<lambda>a. example_grid 2 3
        [example_cell ''a'', make_cell 4 ''b'' example_red,
         example_cell ''c'', example_cell ''d'',
         example_cell ''e'', example_cell ''f''])\<rparr>"



section \<open>Properties\<close>

lemma make_cell_loop_fields:
  "tsize (make_cell_loop i limit str ret) = tsize ret \<and>
   hl_attrs (make_cell_loop i limit str ret) = hl_attrs ret \<and>
   length (ctext (make_cell_loop i limit str ret)) = length (ctext ret)"
proof (induction i limit str ret rule: make_cell_loop.induct)
  case (1 i limit str ret)
  show ?case
  proof (cases "i < limit")
    case True
    with 1 show ?thesis by (simp add: make_cell_loop.simps [of i])
  next
    case False
    then show ?thesis by (simp add: make_cell_loop.simps [of i])
  qed
qed

lemma make_cell_hl_attrs: "hl_attrs (make_cell mts str hl) = hl"
  by (simp add: make_cell_def empty_cell_def Let_def make_cell_loop_fields)

subsection \<open>The cell that make\_cell builds\<close>

lemma make_cell_loop_run:
  "i \<le> limit \<Longrightarrow> limit \<le> length str \<Longrightarrow> limit \<le> length (ctext ret) \<Longrightarrow>
   ctext (make_cell_loop i limit str ret) =
     take i (ctext ret) @ take (limit - i) (drop i str) @ drop limit (ctext ret) \<and>
   hash (make_cell_loop i limit str ret) =
     foldl (\<lambda>h b. h * 33 + byte_value b) (hash ret) (take (limit - i) (drop i str))"
proof (induction i limit str ret rule: make_cell_loop.induct)
  case (1 i limit str ret)
  show ?case
  proof (cases "i < limit")
    case True
    have d: "take (limit - i) (drop i str) = str ! i # take (limit - (i + 1)) (drop (i + 1) str)"
      using True "1.prems"
      by (metis Cons_nth_drop_Suc Suc_diff_Suc Suc_eq_plus1 less_le_trans take_Suc_Cons)
    have u: "take (Suc i) ((ctext ret)[i := str ! i]) = take i (ctext ret) @ [str ! i]"
      using True "1.prems" by (simp add: take_Suc_conv_app_nth)
    have v: "drop limit ((ctext ret)[i := str ! i]) = drop limit (ctext ret)"
      using True by simp
    let ?ret = "ret\<lparr>ctext := (ctext ret)[i := str ! i],
                  hash := hash ret * 33 + byte_value (str ! i)\<rparr>"
    have ih: "ctext (make_cell_loop (i + 1) limit str ?ret) =
        take (i + 1) (ctext ?ret) @ take (limit - (i + 1)) (drop (i + 1) str) @
          drop limit (ctext ?ret) \<and>
      hash (make_cell_loop (i + 1) limit str ?ret) =
        foldl (\<lambda>h b. h * 33 + byte_value b) (hash ?ret)
          (take (limit - (i + 1)) (drop (i + 1) str))"
      using "1.IH" [OF True] True "1.prems" by simp
    have step: "make_cell_loop i limit str ret = make_cell_loop (i + 1) limit str ?ret"
      using True by (simp add: make_cell_loop.simps [of i])
    show ?thesis
      unfolding step using ih u v d by simp
  next
    case False
    with "1.prems" have "i = limit" by simp
    then show ?thesis by (simp add: make_cell_loop.simps [of limit])
  qed
qed

lemma single_space: "(length str = 1 \<and> hd str = CHR '' '') = (str = '' '')"
  by (cases str) auto

text \<open>
  Claim C9. For every text and every highlight attributes, the cell that
  \<open>make_cell\<close> builds keeps at most \<open>max_text_size\<close> bytes of the text: the bytes in
  use are the text cut at \<open>max_text_size\<close>, a longer text is cut and not refused. Its
  hash is the fold of \<open>hash * 33 + byte\<close> over the bytes in use, from the seed 5381.
  The text of exactly one space gives the empty cell: no byte in use, a zeroed
  buffer, the hash 0, and the highlight attributes.
\<close>

theorem make_cell_text_hash:
  fixes hl :: highlight_attributes and str :: string and mts :: nat
  defines "c \<equiv> (make_cell mts str hl :: ('w::len word) cell)"
  shows "tsize c \<le> mts \<and> length (ctext c) = mts \<and> hl_attrs c = hl \<and>
    (str \<noteq> '' '' \<longrightarrow>
       tsize c = min (length str) mts \<and>
       take (tsize c) (ctext c) = take mts str \<and>
       hash c = foldl (\<lambda>h b. h * 33 + byte_value b) 5381 (take (tsize c) (ctext c))) \<and>
    (str = '' '' \<longrightarrow>
       tsize c = 0 \<and> hash c = 0 \<and> ctext c = replicate mts (CHR 0x00))"
proof (cases "str = '' ''")
  case True
  then show ?thesis by (simp add: c_def make_cell_def empty_cell_def)
next
  case False
  let ?limit = "min (length str) mts"
  let ?ret = "(empty_cell mts hl :: 'w word cell)\<lparr>hash := 5381, tsize := ?limit\<rparr>"
  from False have ns: "\<not> (length str = 1 \<and> hd str = CHR '' '')"
    by (simp only: single_space not_False_eq_True)
  have c: "c = make_cell_loop 0 ?limit str ?ret"
    unfolding c_def make_cell_def Let_def using ns by (simp only: if_False)
  have r: "ctext c = take ?limit str @ drop ?limit (ctext ?ret) \<and>
           hash c = foldl (\<lambda>h b. h * 33 + byte_value b) 5381 (take ?limit str)"
    unfolding c using make_cell_loop_run [of 0 ?limit str ?ret] by (simp add: empty_cell_def)
  have f: "tsize c = ?limit" "hl_attrs c = hl" "length (ctext c) = mts"
    unfolding c using make_cell_loop_fields [of 0 ?limit str ?ret]
    by (simp_all add: empty_cell_def)
  have t: "take ?limit str = take mts str" by (simp add: min_def)
  have s: "take (tsize c) (ctext c) = take mts str"
    using r f t by simp
  show ?thesis using False r f s t by simp
qed

theorem make_cell_text_hash_witness:
  "''abcdef'' \<noteq> '' '' \<and>
   tsize (example_cell ''abcdef'') = 4 \<and>
   take 4 (ctext (example_cell ''abcdef'')) = ''abcd'' \<and>
   hash (example_cell ''abcdef'') = 2090069583 \<and>
   tsize (example_cell '' '') = 0 \<and> hash (example_cell '' '') = 0 \<and>
   ctext (example_cell '' '') = replicate 4 (CHR 0x00)"
proof -
  let ?c = "make_cell 4 ''abcdef'' example_default :: 32 word cell"
  note a = make_cell_text_hash [of 4 "''abcdef''" example_default, where 'w = 32]
  note b = make_cell_text_hash [of 4 "'' ''" example_default, where 'w = 32]
  have n: "''abcdef'' \<noteq> '' ''" by simp
  from a n have t: "tsize ?c = 4" by simp
  from a n have "take (tsize ?c) (ctext ?c) = take 4 ''abcdef''" by blast
  then have x: "take 4 (ctext ?c) = ''abcd''" by (simp add: t)
  from a n have "hash ?c =
      foldl (\<lambda>h b. h * 33 + byte_value b) 5381 (take (tsize ?c) (ctext ?c))"
    by blast
  then have h: "hash ?c = 2090069583" by (simp add: t x byte_value_def)
  from b have e: "tsize (make_cell 4 '' '' example_default :: 32 word cell) = 0 \<and>
    hash (make_cell 4 '' '' example_default :: 32 word cell) = 0 \<and>
    ctext (make_cell 4 '' '' example_default :: 32 word cell) = replicate 4 (CHR 0x00)"
    by blast
  show ?thesis using n t x h e by (simp add: example_cell_def)
qed

subsection \<open>Publication: flush\<close>

lemma flush_writing_published: "writing_grid (flush st) = published (flush st)"
  by (simp add: flush_def writing_grid_def published_def Let_def)

lemma flush_tick: "draw_tick (published (flush st)) = draw_tick (writing_grid st) + 1"
  by (simp add: flush_def writing_grid_def published_def Let_def)

lemma flush_repeated_tick:
  "draw_tick (published ((flush ^^ Suc n) st)) = draw_tick (writing_grid st) + Suc n"
proof (induction n)
  case 0
  show ?case using flush_tick [of st] by simp
next
  case (Suc n)
  have "draw_tick (published ((flush ^^ Suc (Suc n)) st)) =
        draw_tick (writing_grid ((flush ^^ Suc n) st)) + 1"
    using flush_tick [of "(flush ^^ Suc n) st"] by simp
  also have "writing_grid ((flush ^^ Suc n) st) = published ((flush ^^ Suc n) st)"
    using flush_writing_published [of "(flush ^^ n) st"] by simp
  finally show ?case using Suc.IH by simp
qed

text \<open>
  Claim C8. After \<open>flush\<close> the published grid has the draw-tick of the writing buffer
  before the call plus 1, and the cells and dimensions of that buffer, untouched; the
  new writing buffer is equal to the published one; the two pointers have changed
  places and one redraw is requested. Hence a second flush right after the first
  raises the published draw-tick by 1 again, and after \<open>n + 1\<close> flushes in a row it is
  the first tick plus \<open>n + 1\<close>: it never goes down.
\<close>

theorem flush_publishes:
  "draw_tick (published (flush st)) = draw_tick (writing_grid st) + 1 \<and>
   cells (published (flush st)) = cells (writing_grid st) \<and>
   width (published (flush st)) = width (writing_grid st) \<and>
   height (published (flush st)) = height (writing_grid st) \<and>
   writing_grid (flush st) = published (flush st) \<and>
   complete (flush st) = writing st \<and> writing (flush st) = complete st \<and>
   redraws (flush st) = redraws st + 1 \<and>
   hltable (flush st) = hltable st \<and> diags (flush st) = diags st \<and>
   draw_tick (published (flush (flush st))) = draw_tick (published (flush st)) + 1 \<and>
   draw_tick (published ((flush ^^ Suc n) st)) = draw_tick (writing_grid st) + Suc n"
proof -
  have a: "draw_tick (published (flush (flush st))) = draw_tick (published (flush st)) + 1"
    using flush_tick [of "flush st"] flush_writing_published [of st] by simp
  have b: "cells (published (flush st)) = cells (writing_grid st) \<and>
   width (published (flush st)) = width (writing_grid st) \<and>
   height (published (flush st)) = height (writing_grid st)"
    by (simp add: flush_def writing_grid_def published_def Let_def)
  have c: "complete (flush st) = writing st \<and> writing (flush st) = complete st \<and>
   redraws (flush st) = redraws st + 1 \<and>
   hltable (flush st) = hltable st \<and> diags (flush st) = diags st"
    by (simp add: flush_def Let_def)
  show ?thesis
    using a b c flush_tick [of st] flush_writing_published [of st] flush_repeated_tick [of n st]
    by simp
qed

subsection \<open>The binder and the number of values of a tuple\<close>

text \<open>
  A tuple with more values than the handler has parameters is not discarded: the
  guard of \<open>apply_one\<close> is \<open>length ts \<le> length args\<close>. Here a tuple of four values
  reaches \<^verbatim>\<open>hl_attr_define\<close>, a handler of two parameters: entry 1 is defined and
  nothing is logged.
\<close>

theorem apply_one_arity_counterexample:
  "length [MInteger 1, MMap [(MString ''bold'', MBoolean True)], MMap [], MArray []]
     \<noteq> length [PIntegral, PMap] \<and>
   (case apply_one [PIntegral, PMap] call_hl_attr_define ''hl_attr_define''
           (MArray [MInteger 1, MMap [(MString ''bold'', MBoolean True)], MMap [], MArray []])
           fresh_state of
      Inl f \<Rightarrow> False
    | Inr st \<Rightarrow> diags st = [] \<and> length (hltable st) = 2 \<and> bold (fontattrs (hltable st ! 1)))"
  by (simp add: apply_one_def call_def call_hl_attr_define_def hl_attr_define_def new_entry_def
      fresh_state_def as_size_t_def hl_attr_pair_def get_default_def example_default_def)

text \<open>
  Claim C2, amended. For every tuple with fewer values than the handler has
  parameters the binder does not call the handler, whatever the handler \<open>h\<close> is: the
  state is the state before with one argument type error logged, and the tuples
  after it in the same event are processed from that state. A tuple with at least as
  many values as parameters is matched on its leading values: when they have the
  types of the parameters the handler is called with them and the values beyond are
  ignored, otherwise the tuple is discarded with the same error.
\<close>

theorem apply_one_arity:
  "(length args < length ts \<longrightarrow>
      apply_one ts h name (MArray args) st =
        Inr (os_log_error (ArgumentTypeError name (MArray args)) st) \<and>
      apply_each ts h name (MArray args # rest) st =
        apply_each ts h name rest (os_log_error (ArgumentTypeError name (MArray args)) st)) \<and>
   (length ts \<le> length args \<and> types_match ts args \<longrightarrow>
      apply_one ts h name (MArray args) st = h (take (length ts) args) st) \<and>
   (length ts \<le> length args \<and> \<not> types_match ts args \<longrightarrow>
      apply_one ts h name (MArray args) st =
        Inr (os_log_error (ArgumentTypeError name (MArray args)) st))"
  by (simp add: apply_one_def call_def)

theorem apply_one_arity_witness:
  "length [MInteger 1] < length [PIntegral, PMap] \<and>
   length [PIntegral, PMap] \<le> length [MInteger 1, MMap [], MMap []] \<and>
   types_match [PIntegral, PMap] [MInteger 1, MMap [], MMap []] \<and>
   \<not> types_match [PIntegral, PMap] [MMap [], MInteger 1] \<and>
   apply_each [PIntegral, PMap] call_hl_attr_define ''hl_attr_define''
     [MArray [MInteger 1], MArray [MInteger 1, MMap [], MMap []]] fresh_state =
   Inr (hl_attr_define 1 [] (os_log_error
          (ArgumentTypeError ''hl_attr_define'' (MArray [MInteger 1])) fresh_state)) \<and>
   apply_one [PIntegral, PMap] call_hl_attr_define ''hl_attr_define''
     (MArray [MMap [], MInteger 1]) fresh_state =
   Inr (os_log_error (ArgumentTypeError ''hl_attr_define'' (MArray [MMap [], MInteger 1]))
          fresh_state)"
proof -
  let ?st = "os_log_error (ArgumentTypeError ''hl_attr_define'' (MArray [MInteger 1])) fresh_state"
  have a: "apply_each [PIntegral, PMap] call_hl_attr_define ''hl_attr_define''
     [MArray [MInteger 1], MArray [MInteger 1, MMap [], MMap []]] fresh_state =
     apply_each [PIntegral, PMap] call_hl_attr_define ''hl_attr_define''
     [MArray [MInteger 1, MMap [], MMap []]] ?st"
    using apply_one_arity [of "[MInteger 1]" "[PIntegral, PMap]" call_hl_attr_define
        "''hl_attr_define''" fresh_state "[MArray [MInteger 1, MMap [], MMap []]]"]
    by simp
  have b: "apply_one [PIntegral, PMap] call_hl_attr_define ''hl_attr_define''
      (MArray [MInteger 1, MMap [], MMap []]) ?st =
      call_hl_attr_define (take 2 [MInteger 1, MMap [], MMap []]) ?st"
    using apply_one_arity [of "[MInteger 1, MMap [], MMap []]" "[PIntegral, PMap]"
        call_hl_attr_define "''hl_attr_define''" ?st]
    by simp
  have c: "apply_one [PIntegral, PMap] call_hl_attr_define ''hl_attr_define''
     (MArray [MMap [], MInteger 1]) fresh_state =
     Inr (os_log_error (ArgumentTypeError ''hl_attr_define'' (MArray [MMap [], MInteger 1]))
          fresh_state)"
    using apply_one_arity [of "[MMap [], MInteger 1]" "[PIntegral, PMap]"
        call_hl_attr_define "''hl_attr_define''" fresh_state]
    by simp
  show ?thesis using a b c by (simp add: call_hl_attr_define_def as_size_t_def)
qed

subsection \<open>The highlight table: new entries\<close>

lemma new_entry_length:
  "length (fst (new_entry hlid table)) =
     (if hlid = length table then hlid + 1 else if hlid < length table then length table else hlid)"
  by (simp add: new_entry_def Let_def)

lemma new_entry_index:
  "table \<noteq> [] \<Longrightarrow>
   snd (new_entry hlid table) = (if hlid \<le> length table then hlid else hlid - 1) \<and>
   snd (new_entry hlid table) < length (fst (new_entry hlid table)) \<and>
   fst (new_entry hlid table) ! snd (new_entry hlid table) = get_default table"
  by (auto simp: new_entry_def Let_def nth_append get_default_def)

lemma hl_attr_define_length:
  "length (hltable (hl_attr_define hlid defn st)) = length (fst (new_entry hlid (hltable st)))"
  by (simp add: hl_attr_define_def split: prod.splits)

text \<open>
  The size of the table after \<open>hl_attr_define\<close>: an id up to the size of the table has
  its entry afterwards, an id beyond it leaves a table of exactly \<open>hlid\<close> entries, whose
  last index is \<open>hlid - 1\<close>.
\<close>

lemma hl_attr_define_size:
  "length (hltable (hl_attr_define hlid defn st)) =
     (if hlid = length (hltable st) then hlid + 1
      else if hlid < length (hltable st) then length (hltable st) else hlid)"
  by (simp only: hl_attr_define_length new_entry_length)

text \<open>
  Claim C1 says that after \<open>hl_attr_define hlid m\<close> the table has an entry at \<open>hlid\<close>,
  also when \<open>hlid\<close> is beyond the size of the table. The code does not do that: on the
  table that holds the default entry only, \<open>hl_attr_define 3\<close> leaves three entries,
  and id 3 has none.
\<close>

theorem new_entry_gap:
  "length (hltable fresh_state) = 1 \<and>
   length (hltable (hl_attr_define 3 [] fresh_state)) = 3 \<and>
   get_entry (hltable (hl_attr_define 3 [] fresh_state)) 3 = None"
  by (simp add: hl_attr_define_def new_entry_def fresh_state_def get_entry_def)

subsection \<open>The highlight table: reverse\<close>

lemma hl_attr_pair_reversed:
  "fst (snd (hl_attr_pair pair (a, r, ds))) = (r \<or> fst pair = MString ''reverse'')"
  by (auto simp: hl_attr_pair_def split: object.splits prod.splits)

lemma hl_attr_loop_reversed:
  "fst (snd (hl_attr_loop defn (a, r, ds))) = (r \<or> MString ''reverse'' \<in> fst ` set defn)"
proof (induction defn arbitrary: a r ds)
  case Nil
  show ?case by simp
next
  case (Cons pair defn)
  obtain a' r' ds' where p: "hl_attr_pair pair (a, r, ds) = (a', r', ds')"
    by (cases "hl_attr_pair pair (a, r, ds)")
  have "r' = (r \<or> fst pair = MString ''reverse'')"
    using hl_attr_pair_reversed [of pair a r ds] p by simp
  then show ?case using Cons.IH [of a' r' ds'] p by auto
qed

text \<open>
  Where the id is at most the size of the table, the entry of the id is the default
  entry with all the keys of the map applied in their order and, when one of the keys
  is \<open>reverse\<close>, the two colours swapped once at the end.
\<close>

lemma hl_attr_define_entry:
  assumes "hltable st \<noteq> []" "hlid \<le> length (hltable st)"
  shows "hltable (hl_attr_define hlid defn st) ! hlid =
     (let a = fst (hl_attr_loop defn (get_default (hltable st), False, []))
      in if MString ''reverse'' \<in> fst ` set defn then swap_colors a else a)"
proof -
  obtain table p where n: "new_entry hlid (hltable st) = (table, p)"
    by (cases "new_entry hlid (hltable st)")
  have "p = hlid \<and> p < length table \<and> table ! p = get_default (hltable st)"
    using new_entry_index [OF assms(1), of hlid] assms(2) unfolding n by auto
  then have i: "p = hlid" "hlid < length table" "table ! hlid = get_default (hltable st)"
    by auto
  obtain a r ds where l: "hl_attr_loop defn (get_default (hltable st), False, []) = (a, r, ds)"
    by (cases "hl_attr_loop defn (get_default (hltable st), False, [])")
  have r: "r = (MString ''reverse'' \<in> fst ` set defn)"
    using hl_attr_loop_reversed [of defn "get_default (hltable st)" False "[]"] l by simp
  show ?thesis
    using n i l r by (simp add: hl_attr_define_def Let_def)
qed

lemma reverse_example:
  assumes "hltable st \<noteq> []" "5 \<le> length (hltable st)"
  shows "background (hltable (hl_attr_define 5
       [(MString ''foreground'', MInteger 0xFF0000), (MString ''reverse'', MBoolean True)] st) ! 5)
       = rgb_color 0xFF0000 \<and>
     foreground (hltable (hl_attr_define 5
       [(MString ''foreground'', MInteger 0xFF0000), (MString ''reverse'', MBoolean True)] st) ! 5)
       = background (get_default (hltable st))"
  using hl_attr_define_entry [OF assms,
      of "[(MString ''foreground'', MInteger 0xFF0000), (MString ''reverse'', MBoolean True)]"]
  by (simp add: hl_attr_pair_def swap_colors_def as_uint32_def Let_def)

text \<open>
  Claim C6 says that \<open>hl_attr_define 5\<close> with the keys \<open>foreground\<close> and \<open>reverse\<close>
  leaves entry 5 with the swapped colours. On a table of five entries or more it does
  (\<open>reverse_example\<close>). On the table that holds the default entry only the code leaves
  five entries: the swapped colours are in entry 4 and id 5 has no entry.
\<close>

theorem reverse_gap:
  "(let st = hl_attr_define 5
       [(MString ''foreground'', MInteger 0xFF0000), (MString ''reverse'', MBoolean True)]
       fresh_state
    in length (hltable st) = 5 \<and> get_entry (hltable st) 5 = None \<and>
       background (hltable st ! 4) = rgb_color 0xFF0000 \<and>
       foreground (hltable st ! 4) = background (get_default (hltable fresh_state)))"
  by (simp add: hl_attr_define_def new_entry_def fresh_state_def get_entry_def hl_attr_pair_def
    swap_colors_def get_default_def as_uint32_def Let_def nth_append)

subsection \<open>default\_colors\_set\<close>

lemma set_default_colors_fields:
  "ctext (set_default_colors f b s c) = ctext c \<and>
   tsize (set_default_colors f b s c) = tsize c \<and>
   hash (set_default_colors f b s c) = hash c \<and>
   fontattrs (hl_attrs (set_default_colors f b s c)) = fontattrs (hl_attrs c) \<and>
   attrs (hl_attrs (set_default_colors f b s c)) = attrs (hl_attrs c) \<and>
   foreground (hl_attrs (set_default_colors f b s c)) =
     (if is_default (foreground (hl_attrs c)) then f else foreground (hl_attrs c)) \<and>
   background (hl_attrs (set_default_colors f b s c)) =
     (if is_default (background (hl_attrs c)) then b else background (hl_attrs c)) \<and>
   special (hl_attrs (set_default_colors f b s c)) =
     (if is_default (special (hl_attrs c)) then s else special (hl_attrs c))"
  by (simp add: set_default_colors_def Let_def)

lemma highlight_attributes_all_fields:
  "a\<lparr>foreground := f, background := b, special := s, fontattrs := fa, attrs := la\<rparr> =
   \<lparr>foreground = f, background = b, special = s, fontattrs = fa, attrs = la\<rparr>"
  by (cases a) simp

text \<open>
  Claim C7. After \<open>default_colors_set fg bg sp\<close> the default entry of the table holds
  the three new colours, marked as defaults, with all its style and decoration flags
  cleared, and no other entry of the table has changed. In the writing grid every
  colour field of a cell that was the default sentinel holds the new colour of its
  kind and every explicit colour is the one it was; the text, size, hash and flags of
  every cell, the dimensions and the draw-tick of the grid, the other buffers, the
  two pointers, the diagnostics and the redraw count are unchanged.
\<close>

theorem default_colors_set_frame:
  fixes st :: "'h ui_state" and fg bg sp :: "32 word"
  defines "st' \<equiv> default_colors_set fg bg sp st"
  defines "d \<equiv> \<lparr>foreground = rgb_color_default fg, background = rgb_color_default bg,
      special = rgb_color_default sp, fontattrs = \<lparr>bold = False, italic = False\<rparr>,
      attrs = \<lparr>underline = False, strikethrough = False, undercurl = False,
               reverse = False\<rparr>\<rparr>"
  shows "hltable st' = (hltable st)[0 := d] \<and>
    (hltable st \<noteq> [] \<longrightarrow> get_default (hltable st') = d) \<and>
    length (cells (writing_grid st')) = length (cells (writing_grid st)) \<and>
    (\<forall>i < length (cells (writing_grid st)).
       foreground (hl_attrs (cells (writing_grid st') ! i)) =
         (if is_default (foreground (hl_attrs (cells (writing_grid st) ! i)))
          then rgb_color_default fg else foreground (hl_attrs (cells (writing_grid st) ! i))) \<and>
       background (hl_attrs (cells (writing_grid st') ! i)) =
         (if is_default (background (hl_attrs (cells (writing_grid st) ! i)))
          then rgb_color_default bg else background (hl_attrs (cells (writing_grid st) ! i))) \<and>
       special (hl_attrs (cells (writing_grid st') ! i)) =
         (if is_default (special (hl_attrs (cells (writing_grid st) ! i)))
          then rgb_color_default sp else special (hl_attrs (cells (writing_grid st) ! i))) \<and>
       fontattrs (hl_attrs (cells (writing_grid st') ! i)) =
         fontattrs (hl_attrs (cells (writing_grid st) ! i)) \<and>
       attrs (hl_attrs (cells (writing_grid st') ! i)) =
         attrs (hl_attrs (cells (writing_grid st) ! i)) \<and>
       ctext (cells (writing_grid st') ! i) = ctext (cells (writing_grid st) ! i) \<and>
       tsize (cells (writing_grid st') ! i) = tsize (cells (writing_grid st) ! i) \<and>
       hash (cells (writing_grid st') ! i) = hash (cells (writing_grid st) ! i)) \<and>
    width (writing_grid st') = width (writing_grid st) \<and>
    height (writing_grid st') = height (writing_grid st) \<and>
    draw_tick (writing_grid st') = draw_tick (writing_grid st) \<and>
    (\<forall>a. a \<noteq> writing st \<longrightarrow> grids st' a = grids st a) \<and>
    writing st' = writing st \<and> complete st' = complete st \<and>
    diags st' = diags st \<and> redraws st' = redraws st"
proof -
  have t: "hltable st' = (hltable st)[0 := d]"
    by (simp add: st'_def d_def default_colors_set_def Let_def highlight_attributes_all_fields)
  have g: "hltable st \<noteq> [] \<longrightarrow> get_default (hltable st') = d"
    unfolding t by (simp add: get_default_def)
  have c: "cells (writing_grid st') =
      map (set_default_colors (rgb_color_default fg) (rgb_color_default bg)
             (rgb_color_default sp)) (cells (writing_grid st))"
    by (simp add: st'_def default_colors_set_def writing_grid_def Let_def)
  have r: "width (writing_grid st') = width (writing_grid st) \<and>
    height (writing_grid st') = height (writing_grid st) \<and>
    draw_tick (writing_grid st') = draw_tick (writing_grid st) \<and>
    (\<forall>a. a \<noteq> writing st \<longrightarrow> grids st' a = grids st a) \<and>
    writing st' = writing st \<and> complete st' = complete st \<and>
    diags st' = diags st \<and> redraws st' = redraws st"
    by (simp add: st'_def default_colors_set_def writing_grid_def Let_def)
  show ?thesis
    unfolding c using t g r by (simp add: set_default_colors_fields)
qed

theorem default_colors_set_frame_witness:
  "hltable example_state \<noteq> [] \<and>
   (1::nat) < length (cells (writing_grid example_state)) \<and>
   2 \<noteq> writing example_state \<and>
   is_default (foreground (hl_attrs (cells (writing_grid example_state) ! 0))) \<and>
   \<not> is_default (foreground (hl_attrs (cells (writing_grid example_state) ! 1))) \<and>
   get_default (hltable (default_colors_set 1 2 3 example_state)) =
     \<lparr>foreground = rgb_color_default 1, background = rgb_color_default 2,
      special = rgb_color_default 3, fontattrs = \<lparr>bold = False, italic = False\<rparr>,
      attrs = \<lparr>underline = False, strikethrough = False, undercurl = False,
               reverse = False\<rparr>\<rparr> \<and>
   foreground (hl_attrs (cells (writing_grid (default_colors_set 1 2 3 example_state)) ! 0)) =
     rgb_color_default 1 \<and>
   foreground (hl_attrs (cells (writing_grid (default_colors_set 1 2 3 example_state)) ! 1)) =
     rgb_color 0xFF0000 \<and>
   background (hl_attrs (cells (writing_grid (default_colors_set 1 2 3 example_state)) ! 1)) =
     rgb_color_default 2 \<and>
   grids (default_colors_set 1 2 3 example_state) 2 = grids example_state 2"
proof -
  note a = default_colors_set_frame [of 1 2 3 example_state]
  have h: "hltable example_state \<noteq> []"
    by (simp add: example_state_def fresh_state_def)
  have c: "cells (writing_grid example_state) =
     [example_cell ''a'', make_cell 4 ''b'' example_red,
      example_cell ''c'', example_cell ''d'', example_cell ''e'', example_cell ''f'']"
    by (simp add: example_state_def fresh_state_def writing_grid_def example_grid_def)
  have w: "2 \<noteq> writing example_state"
    by (simp add: example_state_def fresh_state_def)
  have f: "hl_attrs (example_cell ''a'') = example_default"
       "hl_attrs (make_cell 4 ''b'' example_red :: 32 word cell) = example_red"
    by (simp_all add: example_cell_def make_cell_hl_attrs)
  have l0: "(0::nat) < length (cells (writing_grid example_state))"
    and l1: "(1::nat) < length (cells (writing_grid example_state))"
    by (simp_all add: c)
  from a h have 1: "get_default (hltable (default_colors_set 1 2 3 example_state)) =
     \<lparr>foreground = rgb_color_default 1, background = rgb_color_default 2,
      special = rgb_color_default 3, fontattrs = \<lparr>bold = False, italic = False\<rparr>,
      attrs = \<lparr>underline = False, strikethrough = False, undercurl = False,
               reverse = False\<rparr>\<rparr>" by blast
  from a w have 2: "grids (default_colors_set 1 2 3 example_state) 2 = grids example_state 2"
    by blast
  from a l0 have 3:
    "foreground (hl_attrs (cells (writing_grid (default_colors_set 1 2 3 example_state)) ! 0)) =
     (if is_default (foreground (hl_attrs (cells (writing_grid example_state) ! 0)))
      then rgb_color_default 1 else foreground (hl_attrs (cells (writing_grid example_state) ! 0)))"
    by blast
  from a l1 have 4:
    "foreground (hl_attrs (cells (writing_grid (default_colors_set 1 2 3 example_state)) ! 1)) =
     (if is_default (foreground (hl_attrs (cells (writing_grid example_state) ! 1)))
      then rgb_color_default 1 else foreground (hl_attrs (cells (writing_grid example_state) ! 1)))"
    "background (hl_attrs (cells (writing_grid (default_colors_set 1 2 3 example_state)) ! 1)) =
     (if is_default (background (hl_attrs (cells (writing_grid example_state) ! 1)))
      then rgb_color_default 2 else background (hl_attrs (cells (writing_grid example_state) ! 1)))"
    by blast+
  have v: "hl_attrs (cells (writing_grid example_state) ! 0) = example_default"
    "hl_attrs (cells (writing_grid example_state) ! 1) = example_red"
    by (simp_all add: c f)
  have d: "is_default (foreground example_default)" "\<not> is_default (foreground example_red)"
    "is_default (background example_red)" "foreground example_red = rgb_color 0xFF0000"
    by (simp_all add: example_default_def example_red_def rgb_color_default_def rgb_color_def)
  note 3 = 3 [unfolded v] and 4 = 4 [unfolded v]
  show ?thesis
    unfolding v using h w l1 1 2 3 4 d by simp
qed

subsection \<open>grid\_line\<close>







lemma grid_line_loop_append:
  "grid_line_loop mts hl pre ls = Inr (ls1, None) \<Longrightarrow>
   grid_line_loop mts hl (pre @ post) ls = grid_line_loop mts hl post ls1"
proof (induction pre arbitrary: ls)
  case Nil
  then show ?case by simp
next
  case (Cons obj pre)
  then show ?case by (cases "grid_line_step mts hl obj ls") auto
qed



lemma grid_line_in_bounds:
  fixes st :: "('w::len word) ui_state"
  assumes "row < height (writing_grid st)" "col < width (writing_grid st)"
  shows "grid_line mts 1 row col objs st =
    (case grid_line_loop mts (hltable st) objs (line_start (writing_grid st) row col) of
       Inl f \<Rightarrow> Inl f
     | Inr (ls, r) \<Rightarrow>
         (let st' = st\<lparr>grids := (grids st)(writing st :=
                        (writing_grid st)\<lparr>cells := l_cells ls\<rparr>)\<rparr>
          in Inr (case r of None \<Rightarrow> st' | Some m \<Rightarrow> os_log_error m st')))"
  using assms
  by (simp add: grid_line_def get_grid_def writing_grid_def Let_def split: sum.splits prod.splits)

lemma example_state_grid:
  "writing_grid example_state = example_grid 2 3
        [example_cell ''a'', make_cell 4 ''b'' example_red,
         example_cell ''c'', example_cell ''d'',
         example_cell ''e'', example_cell ''f'']"
  "hltable example_state = [example_default]"
  by (simp_all add: example_state_def fresh_state_def writing_grid_def)




text \<open>
  Claim C4. In a \<open>grid_line\<close> call, take an update that is reached with the updates
  before it applied and whose repeat count is greater than the cells remaining in the
  row. Processing stops there with one error logged (row overflow, or unknown
  highlight id when the update resolves no entry, which is checked first), whatever
  updates follow. The failing update writes no cell: the cells of the grid are the
  ones the updates before it wrote, the same grid as the call with these updates
  alone returns, so nothing is rolled back. \<open>grid_line\<close> is a function of its
  arguments and the state, so the same call from the same state gives the same state.
\<close>

theorem grid_line_row_overflow:
  fixes st :: "('w::len word) ui_state"
  defines "g \<equiv> writing_grid st"
  assumes "row < height g" "col < width g"
    and "grid_line_loop mts (hltable st) pre (line_start g row col) = Inr (ls, None)"
    and "cell_update_set (hltable st) obj (l_update ls) = Some u"
    and "l_remaining ls < repeat u"
  shows
    "grid_line_loop mts (hltable st) (pre @ obj # post) (line_start g row col) =
       Inr (ls, Some (if hlattr u = None then UnknownHighlightId else RowOverflow)) \<and>
     grid_line mts 1 row col (pre @ obj # post) st =
       Inr (os_log_error (if hlattr u = None then UnknownHighlightId else RowOverflow)
              (st\<lparr>grids := (grids st)(writing st := g\<lparr>cells := l_cells ls\<rparr>)\<rparr>)) \<and>
     grid_line mts 1 row col pre st =
       Inr (st\<lparr>grids := (grids st)(writing st := g\<lparr>cells := l_cells ls\<rparr>)\<rparr>)"
proof -
  let ?m = "if hlattr u = None then UnknownHighlightId else RowOverflow"
  have s: "grid_line_step mts (hltable st) obj ls = Return ?m"
    using assms(5,6) by (simp add: grid_line_step_def split: option.splits)
  have l: "grid_line_loop mts (hltable st) (pre @ obj # post) (line_start g row col) =
       Inr (ls, Some ?m)"
    using grid_line_loop_append [OF assms(4), of "obj # post"] s by simp
  have a: "grid_line mts 1 row col (pre @ obj # post) st =
       Inr (os_log_error ?m (st\<lparr>grids := (grids st)(writing st := g\<lparr>cells := l_cells ls\<rparr>)\<rparr>))"
    using grid_line_in_bounds [of row st col mts "pre @ obj # post"] assms(2,3) l
    by (simp add: g_def)
  have b: "grid_line mts 1 row col pre st =
       Inr (st\<lparr>grids := (grids st)(writing st := g\<lparr>cells := l_cells ls\<rparr>)\<rparr>)"
    using grid_line_in_bounds [of row st col mts pre] assms(2,3,4)
    by (simp add: g_def)
  show ?thesis using l a b by simp
qed

theorem grid_line_row_overflow_witness:
  "1 < height (writing_grid example_state) \<and> 0 < width (writing_grid example_state) \<and>
   grid_line 4 1 1 0
     [MArray [MString ''x'', MInteger 0, MInteger 1],
      MArray [MString ''y'', MInteger 0, MInteger 2],
      MArray [MString ''z'', MInteger 0, MInteger 1]] example_state =
   Inr (os_log_error RowOverflow
     (example_state\<lparr>grids := (grids example_state)(writing example_state :=
        (writing_grid example_state)\<lparr>cells :=
           (cells (writing_grid example_state))[2 := make_cell 4 ''x'' example_default]\<rparr>)\<rparr>)) \<and>
   grid_line 4 1 1 0 [MArray [MString ''x'', MInteger 0, MInteger 1]] example_state =
   Inr (example_state\<lparr>grids := (grids example_state)(writing example_state :=
        (writing_grid example_state)\<lparr>cells :=
           (cells (writing_grid example_state))[2 := make_cell 4 ''x'' example_default]\<rparr>)\<rparr>)"
proof -
  let ?g = "writing_grid example_state"
  let ?x = "\<lparr>utext = ''x'', hlattr = Some example_default, repeat = 1\<rparr>"
  let ?y = "\<lparr>utext = ''y'', hlattr = Some example_default, repeat = 2\<rparr>"
  let ?ls = "\<lparr>l_cells = (cells ?g)[2 := make_cell 4 ''x'' example_default :: 32 word cell],
     l_cell = 3, l_remaining = 1, l_update = ?x\<rparr>"
  let ?pre = "[MArray [MString ''x'', MInteger 0, MInteger 1]]"
  let ?obj = "MArray [MString ''y'', MInteger 0, MInteger 2]"
  let ?post = "[MArray [MString ''z'', MInteger 0, MInteger 1]]"
  have h1: "1 < height ?g" "0 < width ?g"
    by (simp_all add: example_state_grid example_grid_def)
  have u: "cell_update_set (hltable example_state) (MArray [MString ''x'', MInteger 0, MInteger 1])
      (l_update (line_start ?g 1 0)) = Some ?x"
    by (simp add: cell_update_set_def type_check_def line_start_def cell_update_init_def
        get_entry_def as_size_t_def example_state_grid)
  have r: "repeat_loop i i p (mem :: 32 word cell list) = Some mem" for i p mem
    by (subst repeat_loop.simps) simp
  have h2: "grid_line_loop 4 (hltable example_state) ?pre (line_start ?g 1 0) = Inr (?ls, None)"
    using u by (simp add: grid_line_step_def r store_def)
      (simp add: line_start_def grid_get_def example_state_grid example_grid_def)
  have h3: "cell_update_set (hltable example_state) ?obj (l_update ?ls) = Some ?y"
    by (simp add: cell_update_set_def type_check_def get_entry_def as_size_t_def
        example_state_grid)
  have h4: "l_remaining ?ls < repeat ?y" by simp
  note t = grid_line_row_overflow [of 1 example_state 0 4 ?pre ?ls ?obj ?y ?post,
      OF h1 h2 h3 h4]
  show ?thesis using h1 t by simp
qed

text \<open>
  A \<open>grid_line\<close> call whose first update is \<open>[text]\<close> but whose row is outside the
  grid logs the out-of-bounds error of the guard at the head of the handler, and no
  unknown-highlight error.
\<close>

theorem grid_line_first_text_only_counterexample:
  "(case grid_line 4 1 3 0 [MArray [MString ''x'']] example_state of
      Inl f \<Rightarrow> False
    | Inr st \<Rightarrow>
        diags st = [(Error, GridIndexOutOfBounds ''grid_line'' 2 3 3 0)] \<and>
        (Error, UnknownHighlightId) \<notin> set (diags st))"
  by (simp add: grid_line_def get_grid_def log_grid_out_of_bounds_def os_log_error_def
      example_state_def fresh_state_def example_grid_def)

text \<open>
  Claim C10, amended. A \<open>grid_line\<close> call on grid 1 whose first cell update has the
  shape \<open>[text]\<close> returns before any cell is written and leaves the grid as it
  was, with one error logged: unknown highlight id when the row and the column are
  inside the grid, grid index out of bounds when they are not.
\<close>

theorem grid_line_first_text_only:
  fixes st :: "('w::len word) ui_state"
  shows "grid_line mts 1 row col (MArray [MString t] # rest) st =
    Inr (os_log_error
      (if height (writing_grid st) \<le> row \<or> width (writing_grid st) \<le> col
       then GridIndexOutOfBounds ''grid_line'' (width (writing_grid st))
              (height (writing_grid st)) row col
       else UnknownHighlightId) st)"
proof (cases "height (writing_grid st) \<le> row \<or> width (writing_grid st) \<le> col")
  case True
  then show ?thesis
    by (auto simp: grid_line_def get_grid_def writing_grid_def log_grid_out_of_bounds_def
        Let_def)
next
  case False
  let ?s = "line_start (writing_grid st) row col"
  have u: "cell_update_set (hltable st) (MArray [MString t]) (l_update ?s) =
      Some \<lparr>utext = t, hlattr = None, repeat = 1\<rparr>"
    by (simp add: cell_update_set_def type_check_def line_start_def cell_update_init_def)
  have s: "grid_line_step mts (hltable st) (MArray [MString t]) ?s = Return UnknownHighlightId"
    using u by (simp add: grid_line_step_def)
  have l: "grid_line_loop mts (hltable st) (MArray [MString t] # rest) ?s =
      Inr (?s, Some UnknownHighlightId)"
    using s by simp
  have c: "(writing_grid st)\<lparr>cells := l_cells ?s\<rparr> = writing_grid st"
    by (simp add: line_start_def)
  have e: "st\<lparr>grids := (grids st)(writing st := writing_grid st)\<rparr> = st"
    by (simp add: writing_grid_def)
  have "grid_line mts 1 row col (MArray [MString t] # rest) st =
      Inr (os_log_error UnknownHighlightId st)"
    using grid_line_in_bounds [of row st col mts "MArray [MString t] # rest"] False
    unfolding l by (simp add: c e)
  then show ?thesis using False by simp
qed

theorem grid_line_first_text_only_witness:
  "\<not> (height (writing_grid example_state) \<le> 1 \<or> width (writing_grid example_state) \<le> 0) \<and>
   grid_line 4 1 1 0 [MArray [MString ''x'']] example_state =
     Inr (os_log_error UnknownHighlightId example_state)"
proof -
  have h: "\<not> (height (writing_grid example_state) \<le> 1 \<or> width (writing_grid example_state) \<le> 0)"
    by (simp add: example_state_grid example_grid_def)
  show ?thesis
    using h grid_line_first_text_only [of 4 1 0 "''x''" "[]" example_state] by simp
qed

subsection \<open>grid\_scroll\<close>

text \<open>
  The copy of one row: where the two ranges are inside the array and are the same
  range or do not meet, \<open>memcpy\<close> is defined and moves the cells of the source range.
\<close>

lemma memcpy_Some:
  assumes "0 \<le> dest" "0 \<le> src" "dest + int n \<le> int (length mem)"
    "src + int n \<le> int (length mem)" "src = dest \<or> int n \<le> \<bar>src - dest\<bar>"
  shows "\<exists>mem'. memcpy mem dest src n = Some mem' \<and> length mem' = length mem \<and>
    (\<forall>p < length mem. mem' ! p =
       (if dest \<le> int p \<and> int p < dest + int n then mem ! nat (int p + (src - dest))
        else mem ! p))"
proof -
  let ?d = "nat dest" and ?s = "nat src"
  let ?m = "take ?d mem @ take n (drop ?s mem) @ drop (?d + n) mem"
  have m: "memcpy mem dest src n = Some ?m"
    using assms by (auto simp: memcpy_def)
  have b: "?d + n \<le> length mem" "?s + n \<le> length mem"
    using assms by linarith+
  have l: "length ?m = length mem" using b by simp
  have "\<forall>p < length mem. ?m ! p =
       (if dest \<le> int p \<and> int p < dest + int n then mem ! nat (int p + (src - dest))
        else mem ! p)"
  proof (intro allI impI)
    fix p assume p: "p < length mem"
    consider "p < ?d" | "?d \<le> p" "p < ?d + n" | "?d + n \<le> p" by linarith
    then show "?m ! p =
       (if dest \<le> int p \<and> int p < dest + int n then mem ! nat (int p + (src - dest))
        else mem ! p)"
    proof cases
      case 1
      then have "?m ! p = mem ! p" using b by (simp add: nth_append)
      moreover have "\<not> dest \<le> int p" using 1 assms(1) by linarith
      ultimately show ?thesis by simp
    next
      case 2
      have q: "p - ?d < n" "\<not> p < ?d" using 2 by linarith+
      have "?m ! p = (take n (drop ?s mem) @ drop (?d + n) mem) ! (p - ?d)"
        using q b by (simp add: nth_append)
      also have "\<dots> = mem ! (?s + (p - ?d))"
        using q b by (simp add: nth_append)
      also have "?s + (p - ?d) = nat (int p + (src - dest))"
        using 2 assms(1,2) by linarith
      finally show ?thesis using 2 assms(1) by auto
    next
      case 3
      have q: "\<not> p < ?d" "\<not> p - ?d < n" using 3 by linarith+
      have "?m ! p = drop (?d + n) mem ! (p - ?d - n)"
        using q b by (simp add: nth_append)
      also have "\<dots> = mem ! p" using 3 p by simp
      finally show ?thesis using 3 assms(1) by auto
    qed
  qed
  then show ?thesis using m l by blast
qed

lemma scroll_loop_run:
  fixes mem :: "'a list"
  assumes dir: "(0 \<le> off \<and> int n \<le> rw) \<or> (off \<le> 0 \<and> int n \<le> - rw)"
    and sep: "off = 0 \<or> int n \<le> \<bar>off\<bar>"
    and bounds: "\<forall>j. 0 \<le> j \<and> j < count - i \<longrightarrow>
       0 \<le> dest + j * rw \<and> dest + j * rw + int n \<le> int (length mem) \<and>
       0 \<le> dest + j * rw + off \<and> dest + j * rw + off + int n \<le> int (length mem)"
  shows "\<exists>mem'. scroll_loop i count dest (dest + off) rw n mem = Some mem' \<and>
     length mem' = length mem \<and>
     (\<forall>p < length mem. mem' ! p =
        (if \<exists>j. 0 \<le> j \<and> j < count - i \<and>
               dest + j * rw \<le> int p \<and> int p < dest + j * rw + int n
         then mem ! nat (int p + off) else mem ! p))"
  using bounds
proof (induction k \<equiv> "nat (count - i)" arbitrary: i dest mem)
  case 0
  then have "\<not> i < count" by simp
  then show ?case by (auto simp: scroll_loop.simps [of i])
next
  case (Suc k)
  then have lt: "i < count" and k: "k = nat (count - (i + 1))" by linarith+
  have b0: "0 \<le> dest" "dest + int n \<le> int (length mem)"
    "0 \<le> dest + off" "dest + off + int n \<le> int (length mem)"
    using Suc.prems [rule_format, of 0] lt by simp_all
  have "dest + off = dest \<or> int n \<le> \<bar>dest + off - dest\<bar>" using sep by simp
  from memcpy_Some [OF b0(1) b0(3) b0(2) b0(4) this]
  obtain mem1 where m1: "memcpy mem dest (dest + off) n = Some mem1"
    "length mem1 = length mem"
    "\<forall>p < length mem. mem1 ! p =
       (if dest \<le> int p \<and> int p < dest + int n then mem ! nat (int p + off) else mem ! p)"
    by auto
  have b1: "\<forall>j. 0 \<le> j \<and> j < count - (i + 1) \<longrightarrow>
       0 \<le> (dest + rw) + j * rw \<and> (dest + rw) + j * rw + int n \<le> int (length mem1) \<and>
       0 \<le> (dest + rw) + j * rw + off \<and> (dest + rw) + j * rw + off + int n \<le> int (length mem1)"
  proof (intro allI impI)
    fix j assume "0 \<le> j \<and> j < count - (i + 1)"
    then have "0 \<le> j + 1 \<and> j + 1 < count - i" by simp
    from Suc.prems [rule_format, OF this] show
      "0 \<le> (dest + rw) + j * rw \<and> (dest + rw) + j * rw + int n \<le> int (length mem1) \<and>
       0 \<le> (dest + rw) + j * rw + off \<and> (dest + rw) + j * rw + off + int n \<le> int (length mem1)"
      by (simp add: algebra_simps m1(2))
  qed
  from Suc.hyps(1) [OF k b1]
  obtain mem' where m': "scroll_loop (i + 1) count (dest + rw) (dest + rw + off) rw n mem1 = Some mem'"
    "length mem' = length mem1"
    "\<forall>p < length mem1. mem' ! p =
        (if \<exists>j. 0 \<le> j \<and> j < count - (i + 1) \<and>
               dest + rw + j * rw \<le> int p \<and> int p < dest + rw + j * rw + int n
         then mem1 ! nat (int p + off) else mem1 ! p)"
    by auto
  have s: "scroll_loop i count dest (dest + off) rw n mem = Some mem'"
    using lt m1(1) m'(1) by (simp add: scroll_loop.simps [of i] add.assoc add.commute add.left_commute)
  have "\<forall>p < length mem. mem' ! p =
        (if \<exists>j. 0 \<le> j \<and> j < count - i \<and>
               dest + j * rw \<le> int p \<and> int p < dest + j * rw + int n
         then mem ! nat (int p + off) else mem ! p)"
  proof (intro allI impI)
    fix p assume p: "p < length mem"
    let ?later = "\<exists>j. 0 \<le> j \<and> j < count - (i + 1) \<and>
               dest + rw + j * rw \<le> int p \<and> int p < dest + rw + j * rw + int n"
    let ?now = "dest \<le> int p \<and> int p < dest + int n"
    let ?any = "\<exists>j. 0 \<le> j \<and> j < count - i \<and>
               dest + j * rw \<le> int p \<and> int p < dest + j * rw + int n"
    have any: "?any = (?now \<or> ?later)"
    proof
      assume ?any
      then obtain j where j: "0 \<le> j" "j < count - i" "dest + j * rw \<le> int p"
        "int p < dest + j * rw + int n" by blast
      show "?now \<or> ?later"
      proof (cases "j = 0")
        case True
        then show ?thesis using j by simp
      next
        case False
        then have "0 \<le> j - 1 \<and> j - 1 < count - (i + 1) \<and>
               dest + rw + (j - 1) * rw \<le> int p \<and> int p < dest + rw + (j - 1) * rw + int n"
          using j by (simp add: algebra_simps)
        then show ?thesis by blast
      qed
    next
      assume "?now \<or> ?later"
      then show ?any
      proof
        assume ?now
        then have "0 \<le> (0::int) \<and> 0 < count - i \<and>
               dest + 0 * rw \<le> int p \<and> int p < dest + 0 * rw + int n"
          using lt by simp
        then show ?any by blast
      next
        assume ?later
        then obtain j where j: "0 \<le> j" "j < count - (i + 1)" "dest + rw + j * rw \<le> int p"
          "int p < dest + rw + j * rw + int n" by blast
        then have "0 \<le> j + 1 \<and> j + 1 < count - i \<and>
               dest + (j + 1) * rw \<le> int p \<and> int p < dest + (j + 1) * rw + int n"
          by (simp add: algebra_simps)
        then show ?any by blast
      qed
    qed
    show "mem' ! p = (if ?any then mem ! nat (int p + off) else mem ! p)"
    proof (cases ?later)
      case True
      then obtain j where j: "0 \<le> j" "j < count - (i + 1)" "dest + rw + j * rw \<le> int p"
        "int p < dest + rw + j * rw + int n" by blast
      have jb: "0 \<le> j + 1 \<and> j + 1 < count - i" using j by simp
      have src: "0 \<le> int p + off" "int p + off < int (length mem)"
        using Suc.prems [rule_format, OF jb] j(3,4) by (simp_all add: algebra_simps)
      have away: "\<not> (dest \<le> int p + off \<and> int p + off < dest + int n)"
      proof (cases "0 \<le> off \<and> int n \<le> rw")
        case True
        then have "rw \<le> rw + j * rw" using j(1) by (simp add: mult_nonneg_nonneg)
        then show ?thesis using True j(3) by linarith
      next
        case False
        then have f: "off \<le> 0" "int n \<le> - rw" using dir by auto
        then have "j * rw \<le> 0" using j(1) by (simp add: mult_nonneg_nonpos)
        then show ?thesis using f j(4) by linarith
      qed
      have "mem' ! p = mem1 ! nat (int p + off)"
        using m'(3) p m1(2) True by simp
      also have "\<dots> = mem ! nat (int p + off)"
        using m1(3) [rule_format, of "nat (int p + off)"] src away by simp
      finally show ?thesis using any True by simp
    next
      case False
      have "mem' ! p = (if ?later then mem1 ! nat (int p + off) else mem1 ! p)"
        using m'(3) p m1(2) by simp
      then have "mem' ! p = mem1 ! p" using False by (simp only: if_False)
      also have "\<dots> = (if ?now then mem ! nat (int p + off) else mem ! p)"
        using m1(3) p by simp
      finally show ?thesis using any False by simp
    qed
  qed
  then show ?case using s m'(2) m1(2) by simp
qed

lemma cell_in_row:
  fixes q r w c l rt :: int
  assumes "0 \<le> c" "c < w" "0 \<le> l" "rt \<le> w"
  shows "(q * w + l \<le> r * w + c \<and> r * w + c < q * w + rt) = (r = q \<and> l \<le> c \<and> c < rt)"
proof
  assume a: "q * w + l \<le> r * w + c \<and> r * w + c < q * w + rt"
  have w: "0 \<le> w" using assms by simp
  have "r = q"
  proof (rule ccontr)
    assume "r \<noteq> q"
    then consider "r + 1 \<le> q" | "q + 1 \<le> r" by linarith
    then show False
    proof cases
      case 1
      then have "(r + 1) * w \<le> q * w" using w by (rule mult_right_mono)
      then have "r * w + w \<le> q * w" by (simp add: algebra_simps)
      then show False using a assms by linarith
    next
      case 2
      then have "(q + 1) * w \<le> r * w" using w by (rule mult_right_mono)
      then have "q * w + w \<le> r * w" by (simp add: algebra_simps)
      then show False using a assms by linarith
    qed
  qed
  then show "r = q \<and> l \<le> c \<and> c < rt" using a by simp
next
  assume "r = q \<and> l \<le> c \<and> c < rt"
  then show "q * w + l \<le> r * w + c \<and> r * w + c < q * w + rt" by simp
qed

lemma row_in_grid:
  fixes r h w c :: int
  assumes "0 \<le> r" "r < h" "0 \<le> c" "c \<le> w"
  shows "0 \<le> r * w + c \<and> r * w + c \<le> h * w"
proof -
  have w: "0 \<le> w" using assms by simp
  have "r + 1 \<le> h" using assms by simp
  then have "(r + 1) * w \<le> h * w" using w by (rule mult_right_mono)
  then have "r * w + w \<le> h * w" by (simp add: algebra_simps)
  moreover have "0 \<le> r * w" using assms(1) w by simp
  ultimately show ?thesis using assms by linarith
qed

lemma grid_scroll_in_bounds:
  fixes st :: "'h ui_state"
  assumes "top' \<le> bottom" "bottom \<le> height (writing_grid st)"
    "left \<le> right" "right \<le> width (writing_grid st)"
  shows "grid_scroll 1 top' bottom left right rows st =
    (let g = writing_grid st;
         dest = (if 0 \<le> rows then int (grid_get g top' left)
                 else int (grid_get g (bottom - 1) left));
         row_width = (if 0 \<le> rows then int (width g) else - int (width g));
         count = (if 0 \<le> rows then int (bottom - top') - rows else int (bottom - top') + rows)
     in case scroll_loop 0 count dest (dest + int (width g) * rows) row_width (right - left)
               (cells g) of
          None \<Rightarrow> Inl UndefinedBehaviour
        | Some mem \<Rightarrow> Inr (st\<lparr>grids := (grids st)(writing st := g\<lparr>cells := mem\<rparr>)\<rparr>))"
  using assms
  by (simp add: grid_scroll_def get_grid_def writing_grid_def Let_def split: option.splits)

lemma scroll_region:
  fixes cs :: "'a list" and W H T B L R rows :: int and n :: nat
  assumes len: "int (length cs) = H * W"
    and reg: "0 \<le> T" "T \<le> B" "B \<le> H" "0 \<le> L" "L \<le> R" "R \<le> W" "int n = R - L"
    and rows: "\<bar>rows\<bar> < B - T"
    and d: "dest = (if 0 \<le> rows then T * W + L else (B - 1) * W + L)"
    and rw: "rw = (if 0 \<le> rows then W else - W)"
    and cnt: "count = (if 0 \<le> rows then (B - T) - rows else (B - T) + rows)"
  shows "\<exists>mem. scroll_loop 0 count dest (dest + W * rows) rw n cs = Some mem \<and>
     length mem = length cs \<and>
     (\<forall>r c. 0 \<le> r \<and> r < H \<and> 0 \<le> c \<and> c < W \<longrightarrow>
        mem ! nat (r * W + c) =
          (if T \<le> r \<and> r < B \<and> T \<le> r + rows \<and> r + rows < B \<and> L \<le> c \<and> c < R
           then cs ! nat ((r + rows) * W + c) else cs ! nat (r * W + c)))"
proof -
  have W: "0 \<le> W" using reg by simp
  let ?q = "\<lambda>j. if 0 \<le> rows then T + j else B - 1 - j"
  have dj: "dest + j * rw = ?q j * W + L" for j
    using d rw by (simp add: algebra_simps)
  have qb: "T \<le> ?q j \<and> ?q j < B \<and> T \<le> ?q j + rows \<and> ?q j + rows < B"
    if "0 \<le> j \<and> j < count - 0" for j
    using that cnt rows by (auto split: if_splits)
  have dir: "(0 \<le> W * rows \<and> int n \<le> rw) \<or> (W * rows \<le> 0 \<and> int n \<le> - rw)"
    using rw reg W by (auto simp: mult_nonneg_nonneg mult_nonneg_nonpos)
  have sep: "W * rows = 0 \<or> int n \<le> \<bar>W * rows\<bar>"
  proof (cases "rows = 0")
    case True
    then show ?thesis by simp
  next
    case False
    then have "1 \<le> \<bar>rows\<bar>" by simp
    then have "W * 1 \<le> W * \<bar>rows\<bar>" using W by (rule mult_left_mono)
    then have "W \<le> \<bar>W * rows\<bar>" using W by (simp add: abs_mult)
    then show ?thesis using reg by simp
  qed
  have bounds: "\<forall>j. 0 \<le> j \<and> j < count - 0 \<longrightarrow>
       0 \<le> dest + j * rw \<and> dest + j * rw + int n \<le> int (length cs) \<and>
       0 \<le> dest + j * rw + W * rows \<and> dest + j * rw + W * rows + int n \<le> int (length cs)"
  proof (intro allI impI)
    fix j assume j: "0 \<le> j \<and> j < count - 0"
    note q = qb [OF j]
    have a: "0 \<le> ?q j * W + L \<and> ?q j * W + R \<le> H * W"
      using row_in_grid [of "?q j" H L W] row_in_grid [of "?q j" H R W] q reg by auto
    have b: "0 \<le> (?q j + rows) * W + L \<and> (?q j + rows) * W + R \<le> H * W"
      using row_in_grid [of "?q j + rows" H L W] row_in_grid [of "?q j + rows" H R W] q reg
      by auto
    have c: "dest + j * rw + W * rows = (?q j + rows) * W + L"
      unfolding dj by (simp add: algebra_simps)
    show "0 \<le> dest + j * rw \<and> dest + j * rw + int n \<le> int (length cs) \<and>
       0 \<le> dest + j * rw + W * rows \<and> dest + j * rw + W * rows + int n \<le> int (length cs)"
      unfolding c unfolding dj len using a b reg by simp
  qed
  from scroll_loop_run [OF dir sep bounds]
  obtain mem where m: "scroll_loop 0 count dest (dest + W * rows) rw n cs = Some mem"
    "length mem = length cs"
    "\<forall>p < length cs. mem ! p =
        (if \<exists>j. 0 \<le> j \<and> j < count - 0 \<and>
               dest + j * rw \<le> int p \<and> int p < dest + j * rw + int n
         then cs ! nat (int p + W * rows) else cs ! p)"
    by blast
  have "\<forall>r c. 0 \<le> r \<and> r < H \<and> 0 \<le> c \<and> c < W \<longrightarrow>
        mem ! nat (r * W + c) =
          (if T \<le> r \<and> r < B \<and> T \<le> r + rows \<and> r + rows < B \<and> L \<le> c \<and> c < R
           then cs ! nat ((r + rows) * W + c) else cs ! nat (r * W + c))"
  proof (intro allI impI)
    fix r c assume rc: "0 \<le> r \<and> r < H \<and> 0 \<le> c \<and> c < W"
    let ?p = "nat (r * W + c)"
    have p0: "0 \<le> r * W + c" using rc W by simp
    have "r + 1 \<le> H" using rc by simp
    then have "(r + 1) * W \<le> H * W" using W by (rule mult_right_mono)
    then have "r * W + c < H * W" using rc by (simp add: algebra_simps)
    then have pl: "?p < length cs" using len p0 by linarith
    have ip: "int ?p = r * W + c" using p0 by simp
    have cond: "(\<exists>j. 0 \<le> j \<and> j < count - 0 \<and>
               dest + j * rw \<le> int ?p \<and> int ?p < dest + j * rw + int n) =
          (T \<le> r \<and> r < B \<and> T \<le> r + rows \<and> r + rows < B \<and> L \<le> c \<and> c < R)"
    proof
      assume "\<exists>j. 0 \<le> j \<and> j < count - 0 \<and>
               dest + j * rw \<le> int ?p \<and> int ?p < dest + j * rw + int n"
      then obtain j where j: "0 \<le> j \<and> j < count - 0"
        "dest + j * rw \<le> int ?p \<and> int ?p < dest + j * rw + int n" by blast
      have "?q j * W + L \<le> r * W + c \<and> r * W + c < ?q j * W + R"
        using j(2) unfolding dj ip using reg by simp
      then have "r = ?q j \<and> L \<le> c \<and> c < R"
        using cell_in_row [of c W L R "?q j" r] rc reg by blast
      then show "T \<le> r \<and> r < B \<and> T \<le> r + rows \<and> r + rows < B \<and> L \<le> c \<and> c < R"
        using qb [OF j(1)] by simp
    next
      assume a: "T \<le> r \<and> r < B \<and> T \<le> r + rows \<and> r + rows < B \<and> L \<le> c \<and> c < R"
      let ?j = "if 0 \<le> rows then r - T else B - 1 - r"
      have j: "0 \<le> ?j \<and> ?j < count - 0" "?q ?j = r"
        using a cnt by auto
      have "?q ?j * W + L \<le> r * W + c \<and> r * W + c < ?q ?j * W + R"
        unfolding j(2) using a by simp
      then have "dest + ?j * rw \<le> int ?p \<and> int ?p < dest + ?j * rw + int n"
        unfolding dj ip using reg by simp
      then show "\<exists>j. 0 \<le> j \<and> j < count - 0 \<and>
               dest + j * rw \<le> int ?p \<and> int ?p < dest + j * rw + int n"
        using j(1) by blast
    qed
    have idx: "int ?p + W * rows = (r + rows) * W + c"
      unfolding ip by (simp add: algebra_simps)
    show "mem ! ?p =
          (if T \<le> r \<and> r < B \<and> T \<le> r + rows \<and> r + rows < B \<and> L \<le> c \<and> c < R
           then cs ! nat ((r + rows) * W + c) else cs ! ?p)"
      using m(3) [rule_format, OF pl] unfolding cond idx by simp
  qed
  then show ?thesis using m(1,2) by blast
qed

text \<open>
  Claim C5. For \<open>grid_scroll\<close> on grid 1 with \<open>top \<le> bottom \<le> height\<close>,
  \<open>left \<le> right \<le> width\<close> and a shift \<open>rows\<close> of either sign that is smaller in
  size than \<open>bottom - top\<close>, the handler returns, and in the cells it leaves every
  row \<open>r\<close> of the region whose source row \<open>r + rows\<close> is in the region too (for
  \<open>rows \<ge> 0\<close> the rows of \<open>[top, bottom - rows)\<close>) holds over the columns
  \<open>[left, right)\<close> what row \<open>r + rows\<close> held before the call, although the rows read
  and the rows written overlap; every other cell of the grid is as it was, and nothing
  else of the state changes. No copy leaves the cell array and no \<^verbatim>\<open>memcpy\<close> is between
  overlapping ranges other than a range and itself (\<open>rows = 0\<close>).
\<close>

theorem grid_scroll_rows:
  fixes st :: "'h ui_state"
  defines "g \<equiv> writing_grid st"
  assumes "length (cells g) = width g * height g"
    and "top' \<le> bottom" "bottom \<le> height g" "left \<le> right" "right \<le> width g"
    and "\<bar>rows\<bar> < int (bottom - top')"
  shows "\<exists>mem.
     grid_scroll 1 top' bottom left right rows st =
       Inr (st\<lparr>grids := (grids st)(writing st := g\<lparr>cells := mem\<rparr>)\<rparr>) \<and>
     length mem = length (cells g) \<and>
     (\<forall>r < height g. \<forall>c < width g.
        mem ! (r * width g + c) =
          (if top' \<le> r \<and> r < bottom \<and> int top' \<le> int r + rows \<and> int r + rows < int bottom \<and>
              left \<le> c \<and> c < right
           then cells g ! (nat (int r + rows) * width g + c)
           else cells g ! (r * width g + c)))"
proof -
  let ?W = "int (width g)" and ?H = "int (height g)"
  let ?T = "int top'" and ?B = "int bottom" and ?L = "int left" and ?R = "int right"
  let ?dest = "if 0 \<le> rows then int (grid_get g top' left)
               else int (grid_get g (bottom - 1) left)"
  let ?rw = "if 0 \<le> rows then ?W else - ?W"
  let ?count = "if 0 \<le> rows then int (bottom - top') - rows else int (bottom - top') + rows"
  have b1: "1 \<le> bottom" using assms(7) by linarith
  have len: "int (length (cells g)) = ?H * ?W"
    using assms(2) by (simp add: mult.commute)
  have reg: "0 \<le> ?T" "?T \<le> ?B" "?B \<le> ?H" "0 \<le> ?L" "?L \<le> ?R" "?R \<le> ?W"
    "int (right - left) = ?R - ?L"
    using assms(3-6) by simp_all
  have rows: "\<bar>rows\<bar> < ?B - ?T" using assms(3,7) by simp
  have d: "?dest = (if 0 \<le> rows then ?T * ?W + ?L else (?B - 1) * ?W + ?L)"
    using b1 by (simp add: grid_get_def of_nat_diff)
  have cnt: "?count = (if 0 \<le> rows then (?B - ?T) - rows else (?B - ?T) + rows)"
    using assms(3) by simp
  from scroll_region [OF len reg rows d refl cnt]
  obtain mem where m:
    "scroll_loop 0 ?count ?dest (?dest + ?W * rows) ?rw (right - left) (cells g) = Some mem"
    "length mem = length (cells g)"
    "\<forall>r c. 0 \<le> r \<and> r < ?H \<and> 0 \<le> c \<and> c < ?W \<longrightarrow>
        mem ! nat (r * ?W + c) =
          (if ?T \<le> r \<and> r < ?B \<and> ?T \<le> r + rows \<and> r + rows < ?B \<and> ?L \<le> c \<and> c < ?R
           then cells g ! nat ((r + rows) * ?W + c) else cells g ! nat (r * ?W + c))"
    by blast
  have s: "grid_scroll 1 top' bottom left right rows st =
       Inr (st\<lparr>grids := (grids st)(writing st := g\<lparr>cells := mem\<rparr>)\<rparr>)"
  proof (cases "0 \<le> rows")
    case True
    then show ?thesis
      using grid_scroll_in_bounds [of top' bottom st left right rows] assms(3-6) m(1)
      by (simp add: g_def Let_def)
  next
    case False
    then show ?thesis
      using grid_scroll_in_bounds [of top' bottom st left right rows] assms(3-6) m(1)
      by (simp add: g_def Let_def)
  qed
  have "\<forall>r < height g. \<forall>c < width g.
        mem ! (r * width g + c) =
          (if top' \<le> r \<and> r < bottom \<and> int top' \<le> int r + rows \<and> int r + rows < int bottom \<and>
              left \<le> c \<and> c < right
           then cells g ! (nat (int r + rows) * width g + c)
           else cells g ! (r * width g + c))"
  proof (intro allI impI)
    fix r c assume r: "r < height g" and c: "c < width g"
    have i1: "nat (int r * ?W + int c) = r * width g + c"
      by (metis nat_int of_nat_add of_nat_mult)
    have i2: "nat ((int r + rows) * ?W + int c) = nat (int r + rows) * width g + c"
      if "0 \<le> int r + rows"
    proof -
      have "(int r + rows) * ?W + int c = int (nat (int r + rows) * width g + c)"
        using that by simp
      then show ?thesis by (metis nat_int)
    qed
    have "mem ! nat (int r * ?W + int c) =
          (if ?T \<le> int r \<and> int r < ?B \<and> ?T \<le> int r + rows \<and> int r + rows < ?B \<and>
              ?L \<le> int c \<and> int c < ?R
           then cells g ! nat ((int r + rows) * ?W + int c)
           else cells g ! nat (int r * ?W + int c))"
      using m(3) [rule_format, of "int r" "int c"] r c by simp
    then show "mem ! (r * width g + c) =
          (if top' \<le> r \<and> r < bottom \<and> int top' \<le> int r + rows \<and> int r + rows < int bottom \<and>
              left \<le> c \<and> c < right
           then cells g ! (nat (int r + rows) * width g + c)
           else cells g ! (r * width g + c))"
      unfolding i1 using i2 by auto
  qed
  then show ?thesis using s m(2) by blast
qed

theorem grid_scroll_rows_witness:
  "length (cells (writing_grid example_state)) =
     width (writing_grid example_state) * height (writing_grid example_state) \<and>
   (0::nat) \<le> 3 \<and> 3 \<le> height (writing_grid example_state) \<and>
   (0::nat) \<le> 2 \<and> 2 \<le> width (writing_grid example_state) \<and>
   \<bar>1::int\<bar> < int (3 - 0) \<and>
   (\<exists>mem.
     grid_scroll 1 0 3 0 2 1 example_state =
       Inr (example_state\<lparr>grids := (grids example_state)(writing example_state :=
              (writing_grid example_state)\<lparr>cells := mem\<rparr>)\<rparr>) \<and>
     length mem = 6 \<and>
     mem ! 0 = example_cell ''c'' \<and> mem ! 1 = example_cell ''d'' \<and>
     mem ! 2 = example_cell ''e'' \<and> mem ! 3 = example_cell ''f'' \<and>
     mem ! 4 = example_cell ''e'' \<and> mem ! 5 = example_cell ''f'')"
proof -
  let ?g = "writing_grid example_state"
  have g: "width ?g = 2" "height ?g = 3"
    "cells ?g = [example_cell ''a'', make_cell 4 ''b'' example_red,
         example_cell ''c'', example_cell ''d'', example_cell ''e'', example_cell ''f'']"
    by (simp_all add: example_state_grid example_grid_def)
  have h: "length (cells ?g) = width ?g * height ?g" "(0::nat) \<le> 3" "3 \<le> height ?g"
    "(0::nat) \<le> 2" "2 \<le> width ?g" "\<bar>1::int\<bar> < int (3 - 0)"
    by (simp_all add: g)
  from grid_scroll_rows [of example_state 0 3 0 2 1, OF h]
  obtain mem where m:
    "grid_scroll 1 0 3 0 2 1 example_state =
       Inr (example_state\<lparr>grids := (grids example_state)(writing example_state :=
              ?g\<lparr>cells := mem\<rparr>)\<rparr>)"
    "length mem = length (cells ?g)"
    "\<forall>r < height ?g. \<forall>c < width ?g.
        mem ! (r * width ?g + c) =
          (if 0 \<le> r \<and> r < 3 \<and> int 0 \<le> int r + 1 \<and> int r + 1 < int 3 \<and> 0 \<le> c \<and> c < 2
           then cells ?g ! (nat (int r + 1) * width ?g + c)
           else cells ?g ! (r * width ?g + c))"
    by blast
  have v: "mem ! 0 = example_cell ''c''" "mem ! 1 = example_cell ''d''"
    "mem ! 2 = example_cell ''e''" "mem ! 3 = example_cell ''f''"
    "mem ! 4 = example_cell ''e''" "mem ! 5 = example_cell ''f''"
    using m(3) [rule_format, of 0 0] m(3) [rule_format, of 0 1]
      m(3) [rule_format, of 1 0] m(3) [rule_format, of 1 1]
      m(3) [rule_format, of 2 0] m(3) [rule_format, of 2 1]
    by (simp_all add: g nat_add_distrib)
  have "grid_scroll 1 0 3 0 2 1 example_state =
       Inr (example_state\<lparr>grids := (grids example_state)(writing example_state :=
              ?g\<lparr>cells := mem\<rparr>)\<rparr>) \<and>
     length mem = 6 \<and>
     mem ! 0 = example_cell ''c'' \<and> mem ! 1 = example_cell ''d'' \<and>
     mem ! 2 = example_cell ''e'' \<and> mem ! 3 = example_cell ''f'' \<and>
     mem ! 4 = example_cell ''e'' \<and> mem ! 5 = example_cell ''f''"
    using m(1,2) v by (simp add: g)
  then show ?thesis using h by blast
qed

end
